theory Spec2Isabelle
  imports Complex_Main "HOL-Library.Multiset" "HOL-Library.Sublist"
begin

section \<open>Configuration constants of \<^verbatim>\<open>scripts/generate_langs.py\<close>\<close>

definition TOP_N :: nat where
  "TOP_N = 5"

definition EXCLUDED_LANGUAGES :: "string set" where
  "EXCLUDED_LANGUAGES = {}"

definition OTHER_COLOR :: string where
  "OTHER_COLOR = ''#6b7280''"

definition REPO_COLORS :: "string list" where
  "REPO_COLORS = [''#f97316'', ''#eab308'', ''#22c55e'', ''#fb7185'', ''#a78bfa'']"

definition ACTIVITY_COLORS :: "string list" where
  "ACTIVITY_COLORS = [''#06b6d4'', ''#6366f1'', ''#00c2a8'', ''#ff6b6b'', ''#ffd166'']"

section \<open>Language tallies\<close>

text \<open>
  A tally is a Python \<^verbatim>\<open>dict\<close> from language name to an integer weight. A \<^verbatim>\<open>dict\<close>
  keeps its keys in insertion order and \<^verbatim>\<open>data.items()\<close> lists the entries in that
  order, which the stable sort of \<^verbatim>\<open>top_n_with_other\<close> observes. The tally is
  therefore the list of its items; its keys are pairwise distinct. Python integers are
  unbounded, hence \<^typ>\<open>int\<close>.
\<close>

type_synonym tally = "(string \<times> int) list"

text \<open>\<^verbatim>\<open>d.get(k, default)\<close>\<close>

definition dict_get :: "tally \<Rightarrow> string \<Rightarrow> int \<Rightarrow> int" where
  "dict_get d k dflt = (case map_of d k of None \<Rightarrow> dflt | Some v \<Rightarrow> v)"

text \<open>\<^verbatim>\<open>d[k] = v\<close>: an existing key keeps its position, a new key goes last.\<close>

fun dict_set :: "tally \<Rightarrow> string \<Rightarrow> int \<Rightarrow> tally" where
  "dict_set [] k v = [(k, v)]"
| "dict_set ((k', v') # d) k v =
     (if k' = k then (k', v) # d else (k', v') # dict_set d k v)"

section \<open>Top-N selection\<close>

text \<open>
  \<^verbatim>\<open>sorted(data.items(), key=lambda x: x[1], reverse=True)\<close>: Python's sort is stable,
  also with \<^verbatim>\<open>reverse=True\<close> (entries of equal value keep their original relative
  order), so it is the stable sort by the negated value.
\<close>

definition ranked :: "tally \<Rightarrow> tally" where
  "ranked data = sort_key (\<lambda>x. - snd x) data"

text \<open>\<^verbatim>\<open>other = sum(v for _, v in items[TOP_N:])\<close>\<close>

definition other_sum :: "tally \<Rightarrow> int" where
  "other_sum data = sum_list (map snd (drop TOP_N (ranked data)))"

definition top_n_with_other :: "tally \<Rightarrow> tally" where
  "top_n_with_other data =
     (let items = ranked data;
          top = take TOP_N items;
          other = sum_list (map snd (drop TOP_N items))
      in if other > 0 then top @ [(''Other'', other)] else top)"

text \<open>
  The final order in the words of the specification: entries sorted by value descending
  with a stable sort, except the entry labelled \<^verbatim>\<open>"Other"\<close>, which is always last
  whatever its magnitude. The output carries no mark of which entry is synthetic, so the
  label is what identifies it.
\<close>

definition final_order :: "tally \<Rightarrow> tally" where
  "final_order xs =
     ranked (filter (\<lambda>e. fst e \<noteq> ''Other'') xs) @ filter (\<lambda>e. fst e = ''Other'') xs"

section \<open>Repository records and language resolution\<close>

text \<open>
  A node of the GraphQL reply. A language object \<^verbatim>\<open>{"name": ...}\<close> is its name, \<open>None\<close>
  when the name is null or missing (\<^verbatim>\<open>pl.get("name")\<close>). \<open>primaryLanguage\<close> is \<open>None\<close>
  when the key is null or missing (\<^verbatim>\<open>repo.get("primaryLanguage")\<close>). \<open>languages\<close> holds
  the names of \<^verbatim>\<open>languages.edges[*].node\<close>, \<open>None\<close> when the \<^verbatim>\<open>languages\<close> object or its
  \<^verbatim>\<open>edges\<close> list is missing: both \<^verbatim>\<open>get\<close> calls then default to the empty list.
\<close>

type_synonym language_node = "string option"

record repo =
  name :: string
  primaryLanguage :: "language_node option"
  languages :: "language_node list option"

definition language_for_repo :: "repo \<Rightarrow> string option" where
  "language_for_repo repo =
     (let fallback =
            (let edges = (case languages repo of None \<Rightarrow> [] | Some es \<Rightarrow> es)
             in case edges of [] \<Rightarrow> None | e # _ \<Rightarrow> e)
      in case primaryLanguage repo of
           None \<Rightarrow> fallback
         | Some None \<Rightarrow> fallback
         | Some (Some n) \<Rightarrow> if n \<noteq> [] then Some n else fallback)"

text \<open>
  \<^verbatim>\<open>if not lang: continue\<close> skips \<^verbatim>\<open>None\<close> and the empty string; the second test is
  \<^verbatim>\<open>lang in EXCLUDED_LANGUAGES\<close>. The loop over \<^verbatim>\<open>repos\<close> threads the dictionary
  \<^verbatim>\<open>counts\<close>.
\<close>

fun repo_count_loop :: "tally \<Rightarrow> repo list \<Rightarrow> tally" where
  "repo_count_loop counts [] = counts"
| "repo_count_loop counts (r # rs) =
     (case language_for_repo r of
        None \<Rightarrow> repo_count_loop counts rs
      | Some lang \<Rightarrow>
          if lang = [] then repo_count_loop counts rs
          else if lang \<in> EXCLUDED_LANGUAGES then repo_count_loop counts rs
          else repo_count_loop (dict_set counts lang (dict_get counts lang 0 + 1)) rs)"

definition languages_by_repo_count :: "repo list \<Rightarrow> tally" where
  "languages_by_repo_count repos = repo_count_loop [] repos"

section \<open>Text and JSON helpers of the Python runtime\<close>

text \<open>
  \<^verbatim>\<open>s.split(sep)\<close> for a non-empty separator: the pieces between the non-overlapping
  occurrences of \<open>sep\<close>, found left to right; never the empty list. The empty separator,
  on which Python raises, does not occur in the program and splits nothing here.
\<close>

function split_from :: "string \<Rightarrow> string \<Rightarrow> string \<Rightarrow> string list" where
  "split_from sep acc [] = [rev acc]"
| "split_from sep acc (c # cs) =
     (if sep \<noteq> [] \<and> take (length sep) (c # cs) = sep
      then rev acc # split_from sep [] (drop (length sep) (c # cs))
      else split_from sep (c # acc) cs)"
  by pat_completeness auto
termination
  by (relation "measure (\<lambda>(sep, acc, s). length s)") auto

definition py_split :: "string \<Rightarrow> string \<Rightarrow> string list" where
  "py_split s sep = split_from sep [] s"

text \<open>\<^verbatim>\<open>sub in s\<close> on strings.\<close>

fun py_in :: "string \<Rightarrow> string \<Rightarrow> bool" where
  "py_in sub [] = (sub = [])"
| "py_in sub (c # cs) = (take (length sub) (c # cs) = sub \<or> py_in sub cs)"

text \<open>
  \<^verbatim>\<open>int(s)\<close> on ASCII text, \<open>None\<close> where it raises \<^verbatim>\<open>ValueError\<close>: surrounding white
  space is dropped, one sign is allowed, then decimal digits follow, with single
  underscores allowed between two digits. Characters outside ASCII and the interpreter's
  configurable cap on the number of digits are outside this model.
\<close>

definition is_space :: "char \<Rightarrow> bool" where
  "is_space c = (of_char c \<in> {9, 10, 11, 12, 13, 32 :: nat})"

definition is_digit :: "char \<Rightarrow> bool" where
  "is_digit c = (48 \<le> (of_char c :: nat) \<and> (of_char c :: nat) \<le> 57)"

definition digit_value :: "char \<Rightarrow> int" where
  "digit_value c = int (of_char c) - 48"

fun parse_digits :: "int \<Rightarrow> bool \<Rightarrow> string \<Rightarrow> int option" where
  "parse_digits acc after_digit [] = (if after_digit then Some acc else None)"
| "parse_digits acc after_digit (c # cs) =
     (if is_digit c then parse_digits (10 * acc + digit_value c) True cs
      else if c = CHR ''_'' \<and> after_digit then parse_digits acc False cs
      else None)"

definition strip :: "string \<Rightarrow> string" where
  "strip s = rev (dropWhile is_space (rev (dropWhile is_space s)))"

definition py_int :: "string \<Rightarrow> int option" where
  "py_int s =
     (case strip s of
        [] \<Rightarrow> None
      | c # cs \<Rightarrow>
          if c = CHR ''-'' then map_option uminus (parse_digits 0 False cs)
          else if c = CHR ''+'' then parse_digits 0 False cs
          else parse_digits 0 False (c # cs))"



text \<open>
  A decoded JSON document, and \<^verbatim>\<open>len\<close> of it: the number of elements of an array, of
  distinct keys of an object, of characters of a string; \<^verbatim>\<open>TypeError\<close> (\<open>None\<close>) on a
  number, a boolean and null.
\<close>

datatype json =
  JNull
  | JBool bool
  | JNumber int
  | JString string
  | JArray "json list"
  | JObject "(string \<times> json) list"

fun py_len :: "json \<Rightarrow> nat option" where
  "py_len (JArray xs) = Some (length xs)"
| "py_len (JObject kvs) = Some (length (remdups (map fst kvs)))"
| "py_len (JString s) = Some (length s)"
| "py_len _ = None"

section \<open>The outside world: environment variables and HTTP\<close>

text \<open>
  An exception that leaves a function of the program. \<open>RequestError\<close> is any exception
  raised by \<^verbatim>\<open>requests.get\<close> or \<^verbatim>\<open>requests.post\<close> themselves (no connection, a
  time-out, ...) or by decoding the GraphQL reply.
\<close>

datatype py_error = RequestError | TypeError | ZeroDivisionError

text \<open>
  The reply to the commits request: \<^verbatim>\<open>r.status_code\<close>, \<^verbatim>\<open>r.headers\<close> and \<^verbatim>\<open>r.json()\<close>,
  which is \<open>None\<close> when decoding the body raises.
\<close>

record response =
  status_code :: int
  headers :: "string \<rightharpoonup> string"
  body :: "json option"

datatype get_outcome = GetRaised | GetReply response

text \<open>
  The reply to the GraphQL request, decoded: \<^verbatim>\<open>resp.status_code\<close>, whether
  \<^verbatim>\<open>data.get("errors")\<close> is truthy, and the page \<^verbatim>\<open>data["data"]["user"]["repositories"]\<close>
  with its \<^verbatim>\<open>nodes\<close> and \<^verbatim>\<open>pageInfo\<close>.
\<close>

record graphql_reply =
  gql_status :: int
  gql_errors :: bool
  nodes :: "repo list"
  hasNextPage :: bool
  endCursor :: "string option"

datatype post_outcome = PostRaised | PostReply graphql_reply

text \<open>
  What a run reads from outside: the environment variables, the outcome of the GraphQL
  request for each cursor, and the outcome of the GET request for each URL.
\<close>

record world =
  environ :: "string \<rightharpoonup> string"
  requests_post :: "string option \<Rightarrow> post_outcome"
  requests_get :: "string \<Rightarrow> get_outcome"

text \<open>\<^verbatim>\<open>TOKEN = os.environ.get("GITHUB_TOKEN")\<close>\<close>

definition TOKEN :: "world \<Rightarrow> string option" where
  "TOKEN w = environ w ''GITHUB_TOKEN''"

text \<open>
  \<^verbatim>\<open>USERNAME = os.environ.get("GH_USERNAME",
     os.environ.get("GITHUB_REPOSITORY", "").split("/")[0])\<close>
\<close>

definition USERNAME :: "world \<Rightarrow> string" where
  "USERNAME w =
     (case environ w ''GH_USERNAME'' of
        Some u \<Rightarrow> u
      | None \<Rightarrow>
          hd (py_split (case environ w ''GITHUB_REPOSITORY'' of None \<Rightarrow> [] | Some s \<Rightarrow> s) ''/''))"

section \<open>Repository Fetcher\<close>

text \<open>
  The \<^verbatim>\<open>while True\<close> loop of \<^verbatim>\<open>fetch_repositories\<close>. It ends when a page says that no
  page follows, or by \<^verbatim>\<open>sys.exit(1)\<close>, or by an exception; a server that always announces
  a next page keeps it running, which is the value \<open>None\<close>.
\<close>

datatype abort = SysExit int | Uncaught py_error

partial_function (option) fetch_repositories_loop ::
  "world \<Rightarrow> repo list \<Rightarrow> string option \<Rightarrow> (abort + repo list) option" where
  "fetch_repositories_loop w repos cursor =
     (case requests_post w cursor of
        PostRaised \<Rightarrow> Some (Inl (Uncaught RequestError))
      | PostReply resp \<Rightarrow>
          if gql_status resp \<noteq> 200 then Some (Inl (SysExit 1))
          else if gql_errors resp then Some (Inl (SysExit 1))
          else if \<not> hasNextPage resp then Some (Inr (repos @ nodes resp))
          else fetch_repositories_loop w (repos @ nodes resp) (endCursor resp))"

definition fetch_repositories :: "world \<Rightarrow> (abort + repo list) option" where
  "fetch_repositories w = fetch_repositories_loop w [] None"

section \<open>Commit Counter\<close>

definition commits_url :: "world \<Rightarrow> string \<Rightarrow> string" where
  "commits_url w repo_name =
     ''https://api.github.com/repos/'' @ USERNAME w @ ''/'' @ repo_name @ ''/commits?per_page=1''"

definition rel_last :: string where
  \<open>rel_last = ''rel="last"''\<close>

text \<open>\<^verbatim>\<open>int(part.split("page=")[-1].split(">")[0])\<close>, \<open>None\<close> when \<^verbatim>\<open>int\<close> raises.\<close>

definition page_number :: "string \<Rightarrow> int option" where
  "page_number part = py_int (hd (py_split (last (py_split part ''page='')) ''>''))"

text \<open>
  The loop over the parts of the \<^verbatim>\<open>Link\<close> header: the first part holding
  \<^verbatim>\<open>rel="last"\<close> decides; the \<^verbatim>\<open>return 1\<close> after the loop is reached when no part does.
\<close>

fun link_loop :: "string list \<Rightarrow> int" where
  "link_loop [] = 1"
| "link_loop (part # parts) =
     (if py_in rel_last part
      then (case page_number part of Some n \<Rightarrow> n | None \<Rightarrow> 1)
      else link_loop parts)"

text \<open>\<^verbatim>\<open>fetch_commit_count\<close> from the reply on: everything after \<^verbatim>\<open>requests.get\<close> returned.\<close>

definition count_from_reply :: "response \<Rightarrow> int" where
  "count_from_reply r =
     (if status_code r \<noteq> 200 then 1
      else case headers r ''Link'' of
             None \<Rightarrow>
               (case body r of
                  None \<Rightarrow> 1
                | Some j \<Rightarrow> (case py_len j of None \<Rightarrow> 1 | Some n \<Rightarrow> int n))
           | Some link \<Rightarrow> link_loop (py_split link '',''))"

text \<open>
  \<^verbatim>\<open>requests.get\<close> is called outside any \<^verbatim>\<open>try\<close>: an exception it raises leaves
  \<^verbatim>\<open>fetch_commit_count\<close>.
\<close>

definition fetch_commit_count :: "world \<Rightarrow> string \<Rightarrow> py_error + int" where
  "fetch_commit_count w repo_name =
     (case requests_get w (commits_url w repo_name) of
        GetRaised \<Rightarrow> Inl RequestError
      | GetReply r \<Rightarrow> Inr (count_from_reply r))"

section \<open>Commit-weighted aggregation\<close>

fun commit_weighted_loop :: "world \<Rightarrow> tally \<Rightarrow> repo list \<Rightarrow> py_error + tally" where
  "commit_weighted_loop w weighted [] = Inr weighted"
| "commit_weighted_loop w weighted (r # rs) =
     (case language_for_repo r of
        None \<Rightarrow> commit_weighted_loop w weighted rs
      | Some lang \<Rightarrow>
          if lang = [] \<or> lang \<in> EXCLUDED_LANGUAGES then commit_weighted_loop w weighted rs
          else (case fetch_commit_count w (name r) of
                  Inl e \<Rightarrow> Inl e
                | Inr commits \<Rightarrow>
                    commit_weighted_loop w
                      (dict_set weighted lang (dict_get weighted lang 0 + commits)) rs))"

definition commit_weighted_languages :: "world \<Rightarrow> repo list \<Rightarrow> py_error + tally" where
  "commit_weighted_languages w repos = commit_weighted_loop w [] repos"

section \<open>Pie Renderer\<close>

text \<open>
  The angles of the source are Python floats. They are rendered as real numbers: the
  fields \<open>frac\<close>, \<open>delta\<close>, \<open>a1\<close>, \<open>a2\<close> and the corner points below hold the exact
  values that the floating-point operations of the source approximate.

  The displayed percentage is an integer, \<^verbatim>\<open>round(frac * 100)\<close>, and which integer it is
  depends on the rounding of the two floating-point operations before it. These are
  therefore computed as the source computes them, in IEEE 754 double precision: a
  double is written \<open>(m, e)\<close> for \<open>m \<times> 2\<^sup>e\<close>, and every operation returns the double
  nearest to the exact result, a tie going to the even significand of 53 bits. The
  exponent is not bounded: results outside the range of normal doubles, which counts of
  repositories and commits do not reach, are outside this model.
\<close>

type_synonym double = "int \<times> int"

definition double_value :: "double \<Rightarrow> real" where
  "double_value x = real_of_int (fst x) * 2 powr real_of_int (snd x)"

text \<open>\<^verbatim>\<open>n.bit_length()\<close> of an integer that is not negative.\<close>

function bit_length :: "int \<Rightarrow> int" where
  "bit_length n = (if n \<le> 0 then 0 else 1 + bit_length (n div 2))"
  by pat_completeness auto
termination
  by (relation "measure nat") auto

declare bit_length.simps [simp del]

text \<open>The integer nearest to \<open>num / den\<close>, for \<open>den > 0\<close>, a tie going to the even one.\<close>

definition nearest_even :: "int \<Rightarrow> int \<Rightarrow> int" where
  "nearest_even num den =
     (let d = num div den; r = num mod den
      in if 2 * r < den then d
         else if 2 * r > den then d + 1
         else if even d then d else d + 1)"

text \<open>\<open>(p / q) / 2\<^sup>e\<close> as a ratio of two integers.\<close>

definition scaled :: "int \<Rightarrow> int \<Rightarrow> int \<Rightarrow> int \<times> int" where
  "scaled p q e = (if 0 \<le> e then (p, q * 2 ^ nat e) else (p * 2 ^ nat (- e), q))"

text \<open>
  The double nearest to \<open>p / q\<close>, for \<open>q > 0\<close>: the exponent \<open>e\<close> is the one that puts
  \<open>\<bar>p / q\<bar> / 2\<^sup>e\<close> between \<open>2\<^sup>5\<^sup>2\<close> and \<open>2\<^sup>5\<^sup>3\<close>, found from the bit lengths.
\<close>

definition round_to_double :: "int \<Rightarrow> int \<Rightarrow> double" where
  "round_to_double p q =
     (if p = 0 then (0, 0)
      else let e0 = bit_length \<bar>p\<bar> - bit_length q - 53;
               e = (if 2 ^ 53 * snd (scaled \<bar>p\<bar> q e0) \<le> fst (scaled \<bar>p\<bar> q e0)
                    then e0 + 1 else e0)
           in (sgn p * nearest_even (fst (scaled \<bar>p\<bar> q e)) (snd (scaled \<bar>p\<bar> q e)), e))"

text \<open>\<^verbatim>\<open>a / b\<close> on two integers, \<open>b\<close> not zero: the quotient, correctly rounded.\<close>

definition true_div :: "int \<Rightarrow> int \<Rightarrow> double" where
  "true_div a b = (if 0 < b then round_to_double a b else round_to_double (- a) (- b))"

text \<open>\<^verbatim>\<open>float(n)\<close>, as in the product of a float and the integer literal \<^verbatim>\<open>100\<close>.\<close>

definition double_of_int :: "int \<Rightarrow> double" where
  "double_of_int n = round_to_double n 1"

text \<open>\<^verbatim>\<open>x * y\<close> on two floats.\<close>

definition double_mul :: "double \<Rightarrow> double \<Rightarrow> double" where
  "double_mul x y =
     (let m = fst x * fst y; e = snd x + snd y
      in if 0 \<le> e then round_to_double (m * 2 ^ nat e) 1
         else round_to_double m (2 ^ nat (- e)))"

text \<open>
  \<^verbatim>\<open>round(x)\<close> of a float: the nearest integer, a tie going to the even neighbour.
\<close>

definition round_double :: "double \<Rightarrow> int" where
  "round_double x =
     (if 0 \<le> snd x then fst x * 2 ^ nat (snd x)
      else nearest_even (fst x) (2 ^ nat (- snd x)))"

text \<open>\<^verbatim>\<open>total = sum(v for _, v in data) or 1\<close>\<close>

definition pie_total :: "tally \<Rightarrow> int" where
  "pie_total data = (let s = sum_list (map snd data) in if s = 0 then 1 else s)"

text \<open>
  \<^verbatim>\<open>OTHER_COLOR if label == "Other" else colors[i % len(colors)]\<close>. The palette is
  \<open>None\<close> for the default \<^verbatim>\<open>colors=None\<close>, on which \<^verbatim>\<open>len\<close> raises; on the empty palette
  the modulo raises.
\<close>

definition slice_color :: "string list option \<Rightarrow> nat \<Rightarrow> string \<Rightarrow> py_error + string" where
  "slice_color colors i label =
     (if label = ''Other'' then Inr OTHER_COLOR
      else case colors of
             None \<Rightarrow> Inl TypeError
           | Some cs \<Rightarrow> if cs = [] then Inl ZeroDivisionError else Inr (cs ! (i mod length cs)))"

text \<open>
  One entry of the result. The source appends \<^verbatim>\<open>(d, color, label, round(frac * 100))\<close>,
  where the path text \<^verbatim>\<open>d\<close> prints the corner points, the two radii and the large-arc
  flag; the record holds these components, and next to them the locals \<^verbatim>\<open>frac\<close>,
  \<^verbatim>\<open>delta\<close>, \<^verbatim>\<open>a1\<close> and \<^verbatim>\<open>a2\<close> of the iteration, in exact arithmetic. The percentage
  \<open>pct\<close> is computed from the double \<^verbatim>\<open>frac\<close>, as in the source.
\<close>

record slice =
  frac :: real
  delta :: real
  a1 :: real
  a2 :: real
  large :: nat
  outer_start :: "real \<times> real"
  outer_end :: "real \<times> real"
  inner_end :: "real \<times> real"
  inner_start :: "real \<times> real"
  color :: string
  label :: string
  pct :: int

text \<open>\<^verbatim>\<open>def pt(r, a): return cx + r * math.cos(a), cy + r * math.sin(a)\<close>\<close>

definition pt :: "real \<Rightarrow> real \<Rightarrow> real \<Rightarrow> real \<Rightarrow> real \<times> real" where
  "pt cx cy r a = (cx + r * cos a, cy + r * sin a)"

fun pie_loop ::
  "int \<Rightarrow> real \<Rightarrow> real \<Rightarrow> real \<Rightarrow> real \<Rightarrow> string list option \<Rightarrow> nat \<Rightarrow> real \<Rightarrow> tally
     \<Rightarrow> py_error + slice list" where
  "pie_loop tot cx cy r_outer r_inner colors i angle [] = Inr []"
| "pie_loop tot cx cy r_outer r_inner colors i angle ((lbl, v) # rest) =
     (let fr = real_of_int v / real_of_int tot;
          frac_double = true_div v tot;
          dl = fr * 2 * pi;
          b1 = angle;
          b2 = angle + dl;
          lg = (if dl > pi then 1 else 0)
      in case slice_color colors i lbl of
           Inl e \<Rightarrow> Inl e
         | Inr col \<Rightarrow>
             (case pie_loop tot cx cy r_outer r_inner colors (i + 1) b2 rest of
                Inl e \<Rightarrow> Inl e
              | Inr result \<Rightarrow>
                  Inr (\<lparr>frac = fr, delta = dl, a1 = b1, a2 = b2, large = lg,
                        outer_start = pt cx cy r_outer b1, outer_end = pt cx cy r_outer b2,
                        inner_end = pt cx cy r_inner b2, inner_start = pt cx cy r_inner b1,
                        color = col, label = lbl,
                        pct = round_double (double_mul frac_double (double_of_int 100))\<rparr>
                       # result)))"

definition pie_paths ::
  "tally \<Rightarrow> real \<Rightarrow> real \<Rightarrow> real \<Rightarrow> real \<Rightarrow> string list option \<Rightarrow> py_error + slice list" where
  "pie_paths data cx cy r_outer r_inner colors =
     pie_loop (pie_total data) cx cy r_outer r_inner colors 0 (- pi / 2) data"

text \<open>
  The slices of a result, to read off their fields: those returned, none when
  \<^verbatim>\<open>pie_paths\<close> raised.
\<close>

fun slices_of :: "py_error + slice list \<Rightarrow> slice list" where
  "slices_of (Inl e) = []"
| "slices_of (Inr result) = result"

section \<open>Rendering and the run\<close>

text \<open>
  \<^verbatim>\<open>render_combined\<close> up to the two lists of slices from which the SVG text is printed;
  the file is taken to be writable.
\<close>

definition render_combined :: "tally \<Rightarrow> tally \<Rightarrow> py_error + slice list \<times> slice list" where
  "render_combined repo_data activity_data =
     (let repo_top = top_n_with_other repo_data;
          act_top = top_n_with_other activity_data
      in case pie_paths repo_top 280 160 88 56 (Some REPO_COLORS) of
           Inl e \<Rightarrow> Inl e
         | Inr repo_paths \<Rightarrow>
             (case pie_paths act_top 680 160 88 56 (Some ACTIVITY_COLORS) of
                Inl e \<Rightarrow> Inl e
              | Inr act_paths \<Rightarrow> Inr (repo_paths, act_paths)))"

definition main :: "world \<Rightarrow> (abort + slice list \<times> slice list) option" where
  "main w =
     (case fetch_repositories w of
        None \<Rightarrow> None
      | Some (Inl a) \<Rightarrow> Some (Inl a)
      | Some (Inr repos) \<Rightarrow>
          (let repo_data = languages_by_repo_count repos
           in case commit_weighted_languages w repos of
                Inl e \<Rightarrow> Some (Inl (Uncaught e))
              | Inr activity_data \<Rightarrow>
                  (case render_combined repo_data activity_data of
                     Inl e \<Rightarrow> Some (Inl (Uncaught e))
                   | Inr svg \<Rightarrow> Some (Inr svg))))"

text \<open>
  The script from its first line: the two checks of the module body, each ending the
  run by \<^verbatim>\<open>sys.exit(1)\<close>, then \<^verbatim>\<open>main()\<close>.
\<close>

definition script :: "world \<Rightarrow> (abort + slice list \<times> slice list) option" where
  "script w =
     (if TOKEN w = None \<or> TOKEN w = Some [] then Some (Inl (SysExit 1))
      else if USERNAME w = [] then Some (Inl (SysExit 1))
      else main w)"

text \<open>
  The exit status of the process: the argument of \<^verbatim>\<open>sys.exit\<close>, 1 after an uncaught
  exception, 0 when the script runs to its end.
\<close>

fun exit_code :: "abort + 'a \<Rightarrow> int" where
  "exit_code (Inl (SysExit n)) = n"
| "exit_code (Inl (Uncaught e)) = 1"
| "exit_code (Inr x) = 0"

section \<open>Example inputs\<close>

definition spec_tally :: tally where
  "spec_tally = [(''Go'', 12), (''Rust'', 7), (''Python'', 3), (''TS'', 2), (''C'', 1), (''Ruby'', 1)]"

definition tied_tally :: tally where
  "tied_tally =
     [(''C'', 1), (''Go'', 2), (''TS'', 2), (''Rust'', 7), (''Lua'', 1), (''Ruby'', 1), (''Zig'', 1)]"

definition thirds_tally :: tally where
  "thirds_tally = [(''Go'', 1), (''Rust'', 1), (''C'', 1)]"

definition dominant_tally :: tally where
  "dominant_tally = [(''Go'', 3), (''C'', 1)]"

definition halves_tally :: tally where
  "halves_tally = [(''Go'', 1), (''C'', 1)]"

definition forty_tally :: tally where
  "forty_tally = [(''Go'', 23), (''C'', 17)]"

definition zero_tally :: tally where
  "zero_tally = [(''Go'', 0), (''C'', 0)]"

definition cancelling_tally :: tally where
  "cancelling_tally = [(''Go'', 1), (''C'', - 1)]"

definition api_repo :: repo where
  "api_repo = \<lparr>name = ''api'', primaryLanguage = Some (Some ''Python''),
                languages = Some [Some ''Python'', Some ''Shell'']\<rparr>"

definition notes_repo :: repo where
  "notes_repo = \<lparr>name = ''notes'', primaryLanguage = None, languages = Some []\<rparr>"

definition site_repo :: repo where
  "site_repo = \<lparr>name = ''site'', primaryLanguage = Some None,
                 languages = Some [Some ''Go'', Some ''CSS'']\<rparr>"

definition single_page :: graphql_reply where
  "single_page = \<lparr>gql_status = 200, gql_errors = False,
                   nodes = [api_repo, notes_repo, site_repo],
                   hasNextPage = False, endCursor = None\<rparr>"


definition server_error_reply :: response where
  "server_error_reply = \<lparr>status_code = 500, headers = Map.empty, body = None\<rparr>"

definition garbled_reply :: response where
  "garbled_reply = \<lparr>status_code = 200, headers = Map.empty, body = None\<rparr>"

definition paged_next :: string where
  \<open>paged_next = ''<https://api.github.com/repositories/7/commits?per_page=1&page=2>; rel="next"''\<close>

definition paged_last_path :: string where
  "paged_last_path = '' <https://api.github.com/repositories/7/commits?per_page=1&''"

definition rel_last_tail :: string where
  \<open>rel_last_tail = ''; rel="last"''\<close>

definition paged_last :: string where
  "paged_last = paged_last_path @ ''page='' @ ''345'' @ ''>'' @ rel_last_tail"

definition paged_link :: string where
  "paged_link = paged_next @ '','' @ paged_last"

definition paged_reply :: response where
  "paged_reply =
     \<lparr>status_code = 200, headers = [''Link'' \<mapsto> paged_link],
      body = Some (JArray [JObject [(''sha'', JString ''4f2c'')]])\<rparr>"

definition unparsable_link :: string where
  \<open>unparsable_link = ''<https://api.github.com/repositories/7/commits?page=x>; rel="last"''\<close>

definition unparsable_reply :: response where
  "unparsable_reply =
     \<lparr>status_code = 200, headers = [''Link'' \<mapsto> unparsable_link],
      body = Some (JArray [JObject [(''sha'', JString ''4f2c'')]])\<rparr>"





text \<open>
  A world with the token and the user name set, whose repository listing is the single
  page above, and whose every commits request has the given outcome.
\<close>

definition example_world :: "get_outcome \<Rightarrow> world" where
  "example_world outcome =
     \<lparr>environ = [''GITHUB_TOKEN'' \<mapsto> ''secret'', ''GH_USERNAME'' \<mapsto> ''octocat''],
      requests_post = (\<lambda>cursor. PostReply single_page),
      requests_get = (\<lambda>url. outcome)\<rparr>"

section \<open>Properties of the ranking\<close>

lemma mset_ranked: "mset (ranked data) = mset data"
  by (simp add: ranked_def)

lemma set_ranked: "set (ranked data) = set data"
  by (simp add: ranked_def)

lemma length_ranked: "length (ranked data) = length data"
  by (simp add: ranked_def)

lemma sum_ranked: "sum_list (map snd (ranked data)) = sum_list (map snd data)"
proof -
  have "mset (map snd (ranked data)) = mset (map snd data)"
    by (simp add: mset_ranked)
  then have "sum_mset (mset (map snd (ranked data))) = sum_mset (mset (map snd data))"
    by (rule arg_cong)
  then show ?thesis
    by (simp only: sum_mset_sum_list)
qed

lemma ranked_descending: "sorted_wrt (\<lambda>a b. snd b \<le> snd a) (ranked data)"
proof -
  have "sorted (map (\<lambda>x. - snd x) (ranked data))"
    unfolding ranked_def by (rule sorted_sort_key)
  then show ?thesis
    by (simp add: sorted_map sorted_wrt_iff_nth_less)
qed

lemma ranked_stable:
  "filter (\<lambda>e. snd e = k) (ranked data) = filter (\<lambda>e. snd e = k) data"
proof -
  have "filter (\<lambda>e. - snd e = - k) (ranked data) = filter (\<lambda>e. - snd e = - k) data"
    unfolding ranked_def by (rule sort_key_stable)
  then show ?thesis by simp
qed

lemma sum_take_drop:
  "sum_list (map snd (take n xs)) + sum_list (map snd (drop n xs)) = sum_list (map snd xs)"
proof -
  have "sum_list (map snd (take n xs @ drop n xs)) = sum_list (map snd xs)"
    by simp
  then show ?thesis
    by (simp only: map_append sum_list_append)
qed

lemma drop_ranked_nonneg:
  assumes "\<forall>e \<in> set data. 0 \<le> snd e"
  shows "0 \<le> other_sum data"
proof -
  have "set (drop TOP_N (ranked data)) \<subseteq> set data"
    using set_drop_subset [of TOP_N "ranked data"] by (simp add: set_ranked)
  with assms have "\<forall>v \<in> set (map snd (drop TOP_N (ranked data))). 0 \<le> v"
    by auto
  then show ?thesis
    unfolding other_sum_def by (intro sum_list_nonneg) auto
qed

lemma length_top_n_with_other: "length (top_n_with_other data) \<le> TOP_N + 1"
  by (auto simp: top_n_with_other_def Let_def)

lemma top_n_with_other_eq:
  "top_n_with_other data =
     take TOP_N (ranked data) @ (if 0 < other_sum data then [(''Other'', other_sum data)] else [])"
  by (simp add: top_n_with_other_def other_sum_def Let_def)

lemma top_keys:
  assumes "''Other'' \<notin> fst ` set data"
  shows "\<forall>e \<in> set (take TOP_N (ranked data)). fst e \<noteq> ''Other''"
proof
  fix e assume "e \<in> set (take TOP_N (ranked data))"
  then have "e \<in> set data"
    using set_take_subset [of TOP_N "ranked data"] by (auto simp: set_ranked)
  with assms show "fst e \<noteq> ''Other''" by force
qed

lemma filter_top_labels:
  assumes "''Other'' \<notin> fst ` set data"
  shows "filter (\<lambda>e. fst e \<noteq> ''Other'') (take TOP_N (ranked data)) = take TOP_N (ranked data)"
    and "filter (\<lambda>e. fst e = ''Other'') (take TOP_N (ranked data)) = []"
  using top_keys [OF assms] by (simp_all add: filter_empty_conv)

lemma ranked_take_ranked: "ranked (take n (ranked data)) = take n (ranked data)"
proof -
  have "sorted (map (\<lambda>x. - snd x) (ranked data))"
    unfolding ranked_def by (rule sorted_sort_key)
  then have "sorted (take n (map (\<lambda>x. - snd x) (ranked data)))"
    by (rule sorted_wrt_take)
  then have "sorted (map (\<lambda>x. - snd x) (take n (ranked data)))"
    by (simp only: take_map)
  then show ?thesis
    unfolding ranked_def [of "take n (sort_key (\<lambda>x. - snd x) data)"]
    by (simp add: ranked_def sort_key_id_if_sorted)
qed

lemma filter_take_prefix: "prefix (filter P (take n xs)) (filter P xs)"
proof -
  have "filter P xs = filter P (take n xs) @ filter P (drop n xs)"
    by (simp flip: filter_append)
  then show ?thesis
    by (simp add: prefix_def)
qed

lemma top_n_spec_tally:
  "top_n_with_other spec_tally =
     [(''Go'', 12), (''Rust'', 7), (''Python'', 3), (''TS'', 2), (''C'', 1), (''Other'', 1)]"
  by (simp add: top_n_with_other_def spec_tally_def ranked_def TOP_N_def)

lemma top_n_tied_tally:
  "top_n_with_other tied_tally =
     [(''Rust'', 7), (''Go'', 2), (''TS'', 2), (''C'', 1), (''Lua'', 1), (''Other'', 2)]"
  by (simp add: top_n_with_other_def tied_tally_def ranked_def TOP_N_def)

section \<open>Claims about \<^verbatim>\<open>top_n_with_other\<close>\<close>

text \<open>
  C10. For every tally whose values are all non-negative, \<^verbatim>\<open>top_n_with_other\<close>
  preserves the total weight: the values of its output, the \<^verbatim>\<open>"Other"\<close> entry
  included when there is one, add up to the sum of the values of the input tally.
\<close>

theorem top_n_with_other_preserves_total:
  assumes "\<forall>e \<in> set data. 0 \<le> snd e"
  shows "sum_list (map snd (top_n_with_other data)) = sum_list (map snd data)"
proof -
  let ?items = "ranked data"
  let ?other = "sum_list (map snd (drop TOP_N ?items))"
  have split: "sum_list (map snd (take TOP_N ?items)) + ?other = sum_list (map snd data)"
    by (simp only: sum_take_drop sum_ranked)
  have nonneg: "0 \<le> ?other"
    using drop_ranked_nonneg [OF assms] by (simp add: other_sum_def)
  show ?thesis
  proof (cases "0 < ?other")
    case True
    then show ?thesis
      using split by (simp add: top_n_with_other_def Let_def)
  next
    case False
    with nonneg have "?other = 0" by simp
    then show ?thesis
      using split by (simp add: top_n_with_other_def Let_def)
  qed
qed

theorem top_n_with_other_preserves_total_witness:
  "list_all (\<lambda>e. 0 \<le> snd e) spec_tally
   \<and> sum_list (map snd spec_tally) = 26
   \<and> sum_list (map snd (top_n_with_other spec_tally)) = 26"
proof -
  have h: "\<forall>e \<in> set spec_tally. 0 \<le> snd e"
    by (simp add: spec_tally_def)
  have a: "list_all (\<lambda>e. 0 \<le> snd e) spec_tally"
    by (simp add: spec_tally_def)
  have b: "sum_list (map snd spec_tally) = 26"
    by (simp add: spec_tally_def)
  have c: "sum_list (map snd (top_n_with_other spec_tally)) = 26"
    using top_n_with_other_preserves_total [OF h] by (simp only: b)
  show ?thesis
    by (intro conjI a b c)
qed

text \<open>
  C1, as the code has it. For every tally the output has at most \<open>TOP_N + 1 = 6\<close>
  entries, and when the values beyond rank \<open>TOP_N\<close> add up to more than zero the last
  entry is \<^verbatim>\<open>("Other", that sum)\<close>. For a tally with no language named \<^verbatim>\<open>"Other"\<close>, an
  entry labelled \<^verbatim>\<open>"Other"\<close> is present exactly when that sum is strictly positive, and
  its value is that sum. A tally that has a language named \<^verbatim>\<open>"Other"\<close> among its first
  \<open>TOP_N\<close> shows an entry of that label whatever the remainder is.
\<close>

theorem top_n_with_other_size_and_other:
  "length (top_n_with_other data) \<le> TOP_N + 1
   \<and> (0 < other_sum data \<longrightarrow> last (top_n_with_other data) = (''Other'', other_sum data))
   \<and> (''Other'' \<notin> fst ` set data \<longrightarrow>
        ((\<exists>v. (''Other'', v) \<in> set (top_n_with_other data)) \<longleftrightarrow> 0 < other_sum data)
        \<and> (\<forall>v. (''Other'', v) \<in> set (top_n_with_other data) \<longrightarrow> v = other_sum data))"
proof -
  have no: "(''Other'', v) \<notin> set (take TOP_N (ranked data))"
    if "''Other'' \<notin> fst ` set data" for v
    using top_keys [OF that] by force
  have "0 < other_sum data \<longrightarrow> last (top_n_with_other data) = (''Other'', other_sum data)"
    by (simp add: top_n_with_other_eq)
  moreover have "''Other'' \<notin> fst ` set data \<longrightarrow>
        ((\<exists>v. (''Other'', v) \<in> set (top_n_with_other data)) \<longleftrightarrow> 0 < other_sum data)
        \<and> (\<forall>v. (''Other'', v) \<in> set (top_n_with_other data) \<longrightarrow> v = other_sum data)"
    using no by (auto simp: top_n_with_other_eq)
  ultimately show ?thesis
    using length_top_n_with_other [of data] by blast
qed

theorem top_n_with_other_size_and_other_witness:
  "''Other'' \<notin> fst ` set spec_tally
   \<and> 0 < other_sum spec_tally
   \<and> (''Other'', 1) \<in> set (top_n_with_other spec_tally)
   \<and> other_sum spec_tally = 1
   \<and> last (top_n_with_other spec_tally) = (''Other'', 1)
   \<and> length (top_n_with_other spec_tally) \<le> TOP_N + 1"
proof -
  note t = top_n_with_other_size_and_other [of spec_tally]
  have h: "''Other'' \<notin> fst ` set spec_tally"
    by (simp add: spec_tally_def)
  have m: "(''Other'', 1) \<in> set (top_n_with_other spec_tally)"
    by (simp add: top_n_spec_tally)
  have "1 = other_sum spec_tally"
    by (rule t [THEN conjunct2, THEN conjunct2, THEN mp, OF h, THEN conjunct2, THEN spec,
          THEN mp, OF m])
  then have s: "other_sum spec_tally = 1" by (rule sym)
  have p: "0 < other_sum spec_tally"
    by (simp only: s)
  have l: "last (top_n_with_other spec_tally) = (''Other'', 1)"
    using t [THEN conjunct2, THEN conjunct1, THEN mp, OF p] by (simp only: s)
  have n: "length (top_n_with_other spec_tally) \<le> TOP_N + 1"
    by (rule t [THEN conjunct1])
  show ?thesis
    by (intro conjI h p m s l n)
qed

text \<open>
  The claim as written fails on a tally that has a language named \<^verbatim>\<open>"Other"\<close>: the tally
  \<^verbatim>\<open>{"Other": 1}\<close> has nothing beyond rank \<open>TOP_N\<close>, and its output holds an entry
  labelled \<^verbatim>\<open>"Other"\<close>.
\<close>

theorem top_n_with_other_label_clash:
  "(''Other'', 1) \<in> set (top_n_with_other [(''Other'', 1)]) \<and> \<not> 0 < other_sum [(''Other'', 1)]"
  by (simp add: top_n_with_other_def other_sum_def ranked_def TOP_N_def)

text \<open>
  C5, as the code has it. For every tally with no language named \<^verbatim>\<open>"Other"\<close>, the output
  of \<^verbatim>\<open>top_n_with_other\<close> is in its final order: putting it in the order of the
  specification again (\<open>final_order\<close>) changes nothing; the entries other than
  \<^verbatim>\<open>"Other"\<close> are in descending order of value; entries of equal value come in their
  original order of the tally (they are the first ones of that value there); and the
  \<^verbatim>\<open>"Other"\<close> entry, when present, is last.
\<close>

theorem top_n_with_other_final_order:
  assumes "''Other'' \<notin> fst ` set data"
  shows "final_order (top_n_with_other data) = top_n_with_other data
    \<and> sorted_wrt (\<lambda>a b. snd b \<le> snd a)
        (filter (\<lambda>e. fst e \<noteq> ''Other'') (top_n_with_other data))
    \<and> (\<forall>k. prefix
              (filter (\<lambda>e. snd e = k) (filter (\<lambda>e. fst e \<noteq> ''Other'') (top_n_with_other data)))
              (filter (\<lambda>e. snd e = k) data))
    \<and> (\<forall>v. (''Other'', v) \<in> set (top_n_with_other data) \<longrightarrow>
            last (top_n_with_other data) = (''Other'', v))"
proof -
  let ?top = "take TOP_N (ranked data)"
  have body: "filter (\<lambda>e. fst e \<noteq> ''Other'') (top_n_with_other data) = ?top"
    by (simp add: top_n_with_other_eq filter_top_labels [OF assms])
  have tail: "filter (\<lambda>e. fst e = ''Other'') (top_n_with_other data)
      = (if 0 < other_sum data then [(''Other'', other_sum data)] else [])"
    by (simp add: top_n_with_other_eq filter_top_labels [OF assms])
  have 1: "final_order (top_n_with_other data) = top_n_with_other data"
    unfolding final_order_def body tail
    by (simp add: ranked_take_ranked top_n_with_other_eq)
  have 2: "sorted_wrt (\<lambda>a b. snd b \<le> snd a) ?top"
    using ranked_descending by (rule sorted_wrt_take)
  have 3: "prefix (filter (\<lambda>e. snd e = k) ?top) (filter (\<lambda>e. snd e = k) data)" for k
    using filter_take_prefix [of "\<lambda>e. snd e = k" TOP_N "ranked data"]
    by (simp only: ranked_stable)
  have no: "\<And>v. (''Other'', v) \<notin> set ?top"
    using top_keys [OF assms] by force
  have 4: "last (top_n_with_other data) = (''Other'', v)"
    if "(''Other'', v) \<in> set (top_n_with_other data)" for v
    using that no by (auto simp: top_n_with_other_eq split: if_splits)
  show ?thesis
    using 1 2 3 4 by (simp only: body) blast
qed

theorem top_n_with_other_final_order_witness:
  "''Other'' \<notin> fst ` set tied_tally
   \<and> top_n_with_other tied_tally
       = [(''Rust'', 7), (''Go'', 2), (''TS'', 2), (''C'', 1), (''Lua'', 1), (''Other'', 2)]
   \<and> final_order (top_n_with_other tied_tally) = top_n_with_other tied_tally
   \<and> (''Other'', 2) \<in> set (top_n_with_other tied_tally)
   \<and> last (top_n_with_other tied_tally) = (''Other'', 2)"
proof -
  have h: "''Other'' \<notin> fst ` set tied_tally"
    by (simp add: tied_tally_def)
  note t = top_n_with_other_final_order [OF h]
  have m: "(''Other'', 2) \<in> set (top_n_with_other tied_tally)"
    by (simp add: top_n_tied_tally)
  have f: "final_order (top_n_with_other tied_tally) = top_n_with_other tied_tally"
    by (rule t [THEN conjunct1])
  have l: "last (top_n_with_other tied_tally) = (''Other'', 2)"
    by (rule t [THEN conjunct2, THEN conjunct2, THEN conjunct2, THEN spec, THEN mp, OF m])
  show ?thesis
    by (intro conjI h top_n_tied_tally f m l)
qed

text \<open>
  The claim as written fails on a tally that has a language named \<^verbatim>\<open>"Other"\<close>: in the
  output for \<^verbatim>\<open>{"Go": 5, "Other": 3, "C": 1}\<close> the \<^verbatim>\<open>"Other"\<close> entry is second, not last,
  and putting the output in its final order moves it.
\<close>

theorem top_n_with_other_other_not_last:
  "(''Other'', 3) \<in> set (top_n_with_other [(''Go'', 5), (''Other'', 3), (''C'', 1)])
   \<and> last (top_n_with_other [(''Go'', 5), (''Other'', 3), (''C'', 1)]) \<noteq> (''Other'', 3)
   \<and> final_order (top_n_with_other [(''Go'', 5), (''Other'', 3), (''C'', 1)])
       \<noteq> top_n_with_other [(''Go'', 5), (''Other'', 3), (''C'', 1)]"
  by (simp add: top_n_with_other_def final_order_def ranked_def TOP_N_def)

section \<open>Properties of the aggregation and of the commit counter\<close>

lemma split_from_nonempty: "split_from sep acc s \<noteq> []"
  by (induction sep acc s rule: split_from.induct) auto

lemma py_split_nonempty: "py_split s sep \<noteq> []"
  by (simp add: py_split_def split_from_nonempty)

lemma language_for_repo_none:
  assumes "primaryLanguage r \<in> {None, Some None, Some (Some [])}"
    and "languages r \<in> {None, Some []}"
  shows "language_for_repo r = None"
  using assms by (auto simp: language_for_repo_def)

lemma repo_count_loop_skip:
  assumes "language_for_repo r = None"
  shows "repo_count_loop counts (rs @ r # rs') = repo_count_loop counts (rs @ rs')"
  using assms
  by (induction counts rs rule: repo_count_loop.induct) (auto split: option.splits)

lemma commit_weighted_loop_skip:
  assumes "language_for_repo r = None"
  shows "commit_weighted_loop w weighted (rs @ r # rs') = commit_weighted_loop w weighted (rs @ rs')"
  using assms
  by (induction w weighted rs rule: commit_weighted_loop.induct)
    (auto split: option.splits sum.splits)

lemma fetch_commit_count_reply:
  "requests_get w (commits_url w nm) = GetReply r \<Longrightarrow>
   fetch_commit_count w nm = Inr (count_from_reply r)"
  by (simp add: fetch_commit_count_def)


lemma link_loop_first:
  "\<forall>p \<in> set before. \<not> py_in rel_last p \<Longrightarrow> py_in rel_last part \<Longrightarrow>
   link_loop (before @ part # after) = (case page_number part of Some n \<Rightarrow> n | None \<Rightarrow> 1)"
  by (induction before) auto

lemma slice_color_palette: "cs \<noteq> [] \<Longrightarrow> \<exists>c. slice_color (Some cs) i lbl = Inr c"
  by (simp add: slice_color_def)

lemma pie_loop_returns:
  assumes "cs \<noteq> []"
  shows "\<exists>ss. pie_loop tot cx cy ro ri (Some cs) i angle data = Inr ss"
proof (induction data arbitrary: i angle)
  case Nil
  show ?case by simp
next
  case (Cons e data)
  obtain lbl v where e: "e = (lbl, v)" by (cases e)
  obtain c where c: "slice_color (Some cs) i lbl = Inr c"
    using slice_color_palette [OF assms] by blast
  obtain ss where
    "pie_loop tot cx cy ro ri (Some cs) (i + 1)
       (angle + real_of_int v / real_of_int tot * 2 * pi) data = Inr ss"
    using Cons.IH by blast
  then show ?case
    by (simp add: e c Let_def)
qed

lemma pie_paths_returns: "cs \<noteq> [] \<Longrightarrow> \<exists>ss. pie_paths data cx cy ro ri (Some cs) = Inr ss"
  by (simp add: pie_paths_def pie_loop_returns)

subsection \<open>What the split expressions of the commit counter compute\<close>













subsection \<open>The example inputs, evaluated\<close>

lemma example_listing:
  "fetch_repositories (example_world outcome) = Some (Inr [api_repo, notes_repo, site_repo])"
  unfolding fetch_repositories_def
  by (subst fetch_repositories_loop.simps) (simp add: example_world_def single_page_def)

lemma example_get: "requests_get (example_world outcome) url = outcome"
  by (simp add: example_world_def)

lemma example_env:
  "TOKEN (example_world outcome) \<noteq> None"
  "TOKEN (example_world outcome) \<noteq> Some []"
  "USERNAME (example_world outcome) \<noteq> []"
  by (simp_all add: TOKEN_def USERNAME_def example_world_def)

lemma example_languages:
  "language_for_repo api_repo = Some ''Python''"
  "language_for_repo notes_repo = None"
  "language_for_repo site_repo = Some ''Go''"
  by (simp_all add: language_for_repo_def api_repo_def notes_repo_def site_repo_def)

lemma split_paged_link: "py_split paged_link '','' = [paged_next, paged_last]"
  by (simp add: py_split_def paged_link_def paged_next_def paged_last_def paged_last_path_def
      rel_last_tail_def)

lemma paged_parts:
  "\<not> py_in rel_last paged_next"
  "py_in rel_last paged_last"
  "page_number paged_last = Some 345"
  by (simp_all add: rel_last_def paged_next_def paged_last_def paged_last_path_def
      rel_last_tail_def page_number_def py_split_def py_int_def strip_def is_space_def
      is_digit_def digit_value_def)

lemma unparsable_parts:
  "py_split unparsable_link '','' = [unparsable_link]"
  "py_in rel_last unparsable_link"
  "page_number unparsable_link = None"
  by (simp_all add: rel_last_def unparsable_link_def page_number_def py_split_def
      py_int_def strip_def is_space_def is_digit_def digit_value_def)




section \<open>Claims about the aggregation\<close>

text \<open>
  C2. A repository whose primary language is absent or has no name, and whose language
  breakdown is empty, contributes to neither tally: with the repository anywhere in the
  list, \<^verbatim>\<open>languages_by_repo_count\<close> and \<^verbatim>\<open>commit_weighted_languages\<close> return what they
  return on the list without it, so no value changes and no key is created for it.
\<close>

theorem repo_without_language_contributes_nothing:
  assumes "primaryLanguage r \<in> {None, Some None, Some (Some [])}"
    and "languages r \<in> {None, Some []}"
  shows "languages_by_repo_count (rs @ r # rs') = languages_by_repo_count (rs @ rs')
    \<and> commit_weighted_languages w (rs @ r # rs') = commit_weighted_languages w (rs @ rs')"
  unfolding languages_by_repo_count_def commit_weighted_languages_def
  using language_for_repo_none [OF assms]
  by (simp add: repo_count_loop_skip commit_weighted_loop_skip)

theorem repo_without_language_witness:
  "primaryLanguage notes_repo \<in> {None, Some None, Some (Some [])}
   \<and> languages notes_repo \<in> {None, Some []}
   \<and> languages_by_repo_count [api_repo, notes_repo, site_repo] = [(''Python'', 1), (''Go'', 1)]
   \<and> commit_weighted_languages (example_world (GetReply paged_reply))
        [api_repo, notes_repo, site_repo] = Inr [(''Python'', 345), (''Go'', 345)]"
proof -
  have h1: "primaryLanguage notes_repo \<in> {None, Some None, Some (Some [])}"
    and h2: "languages notes_repo \<in> {None, Some []}"
    by (simp_all add: notes_repo_def)
  note t = repo_without_language_contributes_nothing
    [OF h1 h2, of "[api_repo]" "[site_repo]" "example_world (GetReply paged_reply)"]
  have c: "count_from_reply paged_reply = 345"
    by (simp add: count_from_reply_def paged_reply_def split_paged_link paged_parts)
  have a: "languages_by_repo_count ([api_repo] @ [site_repo]) = [(''Python'', 1), (''Go'', 1)]"
    by (simp add: languages_by_repo_count_def example_languages EXCLUDED_LANGUAGES_def
        dict_get_def)
  have b: "commit_weighted_languages (example_world (GetReply paged_reply))
        ([api_repo] @ [site_repo]) = Inr [(''Python'', 345), (''Go'', 345)]"
    by (simp add: commit_weighted_languages_def example_languages EXCLUDED_LANGUAGES_def
        dict_get_def fetch_commit_count_def example_get c)
  have a': "languages_by_repo_count [api_repo, notes_repo, site_repo] = [(''Python'', 1), (''Go'', 1)]"
    using t [THEN conjunct1] a by simp
  have b': "commit_weighted_languages (example_world (GetReply paged_reply))
        [api_repo, notes_repo, site_repo] = Inr [(''Python'', 345), (''Go'', 345)]"
    using t [THEN conjunct2] b by simp
  show ?thesis
    by (intro conjI h1 h2 a' b')
qed

section \<open>Claims about the commit counter\<close>

text \<open>
  Whenever the HTTP call returns a reply, \<^verbatim>\<open>fetch_commit_count\<close> returns a count and
  raises nothing; the count is 1 when the status is not 200, when a reply without
  \<^verbatim>\<open>Link\<close> header has a body that does not decode or has no length, and when the page
  number of the \<^verbatim>\<open>rel="last"\<close> part does not parse.
\<close>

lemma failing_replies_count_one:
  assumes "requests_get w (commits_url w nm) = GetReply r"
  shows "\<exists>n. fetch_commit_count w nm = Inr n"
    and "status_code r \<noteq> 200 \<Longrightarrow> fetch_commit_count w nm = Inr 1"
    and "status_code r = 200 \<Longrightarrow> headers r ''Link'' = None \<Longrightarrow>
         body r = None \<or> (\<exists>j. body r = Some j \<and> py_len j = None) \<Longrightarrow>
         fetch_commit_count w nm = Inr 1"
    and "status_code r = 200 \<Longrightarrow> headers r ''Link'' = Some link \<Longrightarrow>
         py_split link '','' = before @ part # after \<Longrightarrow>
         \<forall>p \<in> set before. \<not> py_in rel_last p \<Longrightarrow> py_in rel_last part \<Longrightarrow>
         page_number part = None \<Longrightarrow> fetch_commit_count w nm = Inr 1"
  using assms
  by (auto simp: fetch_commit_count_reply count_from_reply_def link_loop_first)

text \<open>
  C3. Every request error in \<^verbatim>\<open>fetch_commit_count\<close>, a failure of the HTTP call itself
  included, is to give the fallback count 1, and a run in which only commit-count calls
  fail is to complete with exit code 0. The function keeps to this on every reply it
  receives, but \<^verbatim>\<open>requests.get\<close> is called outside any \<^verbatim>\<open>try\<close>. The code at an input
  where the call raises: the exception leaves \<^verbatim>\<open>fetch_commit_count\<close>, which returns no
  count, and the run, whose repository listing succeeded, ends by the uncaught
  exception with exit code 1.
\<close>

theorem commit_count_transport_failure_aborts:
  "requests_get (example_world GetRaised) (commits_url (example_world GetRaised) ''api'') = GetRaised
   \<and> fetch_commit_count (example_world GetRaised) ''api'' = Inl RequestError
   \<and> fetch_repositories (example_world GetRaised) = Some (Inr [api_repo, notes_repo, site_repo])
   \<and> script (example_world GetRaised) = Some (Inl (Uncaught RequestError))
   \<and> map_option exit_code (script (example_world GetRaised)) = Some 1"
proof -
  let ?w = "example_world GetRaised"
  have f: "fetch_commit_count ?w ''api'' = Inl RequestError"
    by (simp add: fetch_commit_count_def example_get)
  have n: "name api_repo = ''api''"
    by (simp add: api_repo_def)
  have c: "commit_weighted_languages ?w [api_repo, notes_repo, site_repo] = Inl RequestError"
    by (simp add: commit_weighted_languages_def example_languages EXCLUDED_LANGUAGES_def n f)
  have m: "main ?w = Some (Inl (Uncaught RequestError))"
    by (simp add: main_def example_listing c Let_def)
  have s: "script ?w = Some (Inl (Uncaught RequestError))"
    using example_env [of GetRaised] by (simp add: script_def m)
  have e: "map_option exit_code (script ?w) = Some 1"
    by (simp add: s)
  show ?thesis
    by (intro conjI example_get f example_listing s e)
qed




section \<open>Properties of the pie renderer\<close>

lemma nearest_even_nearest:
  assumes "0 < den"
  shows "\<bar>real_of_int (nearest_even num den) - real_of_int num / real_of_int den\<bar> \<le> 1 / 2"
proof -
  let ?d = "num div den" and ?r = "num mod den"
  have r: "0 \<le> ?r" "?r < den"
    using assms by simp_all
  have "num = ?d * den + ?r"
    by simp
  then have "real_of_int num = real_of_int ?d * real_of_int den + real_of_int ?r"
    by (metis of_int_add of_int_mult)
  then have q: "real_of_int num / real_of_int den = real_of_int ?d + real_of_int ?r / real_of_int den"
    using assms by (simp add: field_simps)
  have lo: "0 \<le> real_of_int ?r / real_of_int den" and hi: "real_of_int ?r / real_of_int den < 1"
    using r assms by simp_all
  consider "2 * ?r < den" | "2 * ?r > den" | "2 * ?r = den"
    by linarith
  then show ?thesis
  proof cases
    case 1
    then have "real_of_int (2 * ?r) < real_of_int den"
      by (simp only: of_int_less_iff)
    then have "real_of_int ?r / real_of_int den \<le> 1 / 2"
      using assms by (simp add: field_simps)
    moreover have "nearest_even num den = ?d"
      using 1 by (simp add: nearest_even_def Let_def)
    ultimately show ?thesis
      using lo by (simp only: q; simp?)
  next
    case 2
    then have "real_of_int den < real_of_int (2 * ?r)"
      by (simp only: of_int_less_iff)
    then have "1 / 2 \<le> real_of_int ?r / real_of_int den"
      using assms by (simp add: field_simps)
    moreover have "nearest_even num den = ?d + 1"
      using 2 by (simp add: nearest_even_def Let_def)
    ultimately show ?thesis
      using hi by (simp only: q; simp?)
  next
    case 3
    then have "real_of_int (2 * ?r) = real_of_int den"
      by (simp only: of_int_eq_iff)
    then have h: "real_of_int ?r / real_of_int den = 1 / 2"
      using assms by (simp add: field_simps)
    have "nearest_even num den = ?d \<or> nearest_even num den = ?d + 1"
      using 3 by (simp add: nearest_even_def Let_def)
    then show ?thesis
      by (auto simp only: q h; simp?)
  qed
qed

lemma round_double_nearest: "\<bar>real_of_int (round_double x) - double_value x\<bar> \<le> 1 / 2"
proof (cases "0 \<le> snd x")
  case True
  then have "2 powr real_of_int (snd x) = 2 ^ nat (snd x)"
    by (simp add: powr_realpow flip: of_nat_nat)
  then show ?thesis
    using True by (simp add: round_double_def double_value_def)
next
  case False
  define n where "n = nat (- snd x)"
  have "real_of_int (snd x) = - real n"
    using False by (simp add: n_def)
  then have "2 powr real_of_int (snd x) = 1 / 2 ^ n"
    by (simp add: powr_minus_divide powr_realpow)
  then have "2 powr real_of_int (snd x) = 1 / 2 ^ nat (- snd x)"
    by (simp only: n_def)
  then have "double_value x = real_of_int (fst x) / real_of_int (2 ^ nat (- snd x))"
    by (simp add: double_value_def)
  then show ?thesis
    using False nearest_even_nearest [of "2 ^ nat (- snd x)" "fst x"]
    by (simp add: round_double_def)
qed

subsection \<open>The error of the double-precision operations\<close>

lemma bit_length_bounds:
  "0 < n \<Longrightarrow> 0 < bit_length n \<and> 2 ^ nat (bit_length n - 1) \<le> n \<and> n < 2 ^ nat (bit_length n)"
proof (induction n rule: bit_length.induct)
  case (1 n)
  show ?case
  proof (cases "n div 2 = 0")
    case True
    then have "n = 1" using "1.prems" by presburger
    then show ?thesis
      by (simp add: bit_length.simps [of 1] bit_length.simps [of 0])
  next
    case False
    then have pos: "0 < n div 2" using "1.prems" by presburger
    have ih: "0 < bit_length (n div 2)"
      "2 ^ nat (bit_length (n div 2) - 1) \<le> n div 2"
      "n div 2 < 2 ^ nat (bit_length (n div 2))"
      using "1.IH" pos "1.prems" by simp_all
    define b where "b = bit_length (n div 2)"
    have bl: "bit_length n = 1 + b"
      using "1.prems" by (simp add: bit_length.simps [of n] b_def)
    have e1: "nat (1 + b - 1) = Suc (nat (b - 1))" and e2: "nat (1 + b) = Suc (nat b)"
      using ih(1) by (simp_all add: b_def nat_add_distrib)
    have "2 * 2 ^ nat (b - 1) \<le> 2 * (n div 2)"
      using ih(2) by (simp add: b_def)
    also have "\<dots> \<le> n" by presburger
    finally have lo: "2 ^ nat (1 + b - 1) \<le> n"
      by (simp only: e1 power_Suc)
    have "n div 2 + 1 \<le> 2 ^ nat b"
      using ih(3) by (simp add: b_def)
    then have "2 * (n div 2) + 2 \<le> 2 * 2 ^ nat b" by simp
    moreover have "n < 2 * (n div 2) + 2" by presburger
    ultimately have hi: "n < 2 ^ nat (1 + b)"
      by (simp only: e2 power_Suc; simp?)
    show ?thesis
      using ih(1) lo hi by (simp only: bl) (simp add: b_def)
  qed
qed

lemma two_powr_int: "0 \<le> b \<Longrightarrow> 2 powr real_of_int b = 2 ^ nat b"
proof -
  assume "0 \<le> b"
  then have "real_of_int b = real (nat b)" by simp
  then show ?thesis by (simp only: powr_realpow [of 2, simplified])
qed

lemma bit_length_powr:
  assumes "0 < n"
  shows "2 powr (real_of_int (bit_length n) - 1) \<le> real_of_int n"
    and "real_of_int n < 2 powr real_of_int (bit_length n)"
proof -
  note b = bit_length_bounds [OF assms]
  have "2 powr real_of_int (bit_length n - 1) = 2 ^ nat (bit_length n - 1)"
    using b by (intro two_powr_int) simp
  moreover have "real_of_int (2 ^ nat (bit_length n - 1)) \<le> real_of_int n"
    using b by (simp only: of_int_le_iff)
  ultimately show "2 powr (real_of_int (bit_length n) - 1) \<le> real_of_int n"
    by simp
  have "2 powr real_of_int (bit_length n) = 2 ^ nat (bit_length n)"
    using b by (intro two_powr_int) simp
  moreover have "real_of_int n < real_of_int (2 ^ nat (bit_length n))"
    using b by (simp only: of_int_less_iff)
  ultimately show "real_of_int n < 2 powr real_of_int (bit_length n)"
    by simp
qed

lemma scaled_ratio:
  assumes "0 < q"
  shows "0 < snd (scaled p q e)"
    and "real_of_int (fst (scaled p q e)) / real_of_int (snd (scaled p q e))
           = real_of_int p / real_of_int q / 2 powr real_of_int e"
proof -
  show "0 < snd (scaled p q e)"
    using assms by (simp add: scaled_def)
  show "real_of_int (fst (scaled p q e)) / real_of_int (snd (scaled p q e))
           = real_of_int p / real_of_int q / 2 powr real_of_int e"
  proof (cases "0 \<le> e")
    case True
    then show ?thesis
      by (simp add: scaled_def two_powr_int)
  next
    case False
    then have "2 powr real_of_int (- e) = 2 ^ nat (- e)"
      by (intro two_powr_int) simp
    moreover have "2 powr real_of_int e = 1 / 2 powr real_of_int (- e)"
      by (simp add: powr_minus_divide)
    ultimately have "2 powr real_of_int e = 1 / 2 ^ nat (- e)"
      by (simp only:)
    then show ?thesis
      using False by (simp add: scaled_def)
  qed
qed

lemma round_to_double_error:
  assumes q: "0 < q"
  shows "\<bar>double_value (round_to_double p q) - real_of_int p / real_of_int q\<bar>
           \<le> \<bar>real_of_int p / real_of_int q\<bar> / 2 ^ 53"
proof (cases "p = 0")
  case True
  then show ?thesis
    by (simp add: round_to_double_def double_value_def)
next
  case False
  define a where "a = \<bar>p\<bar>"
  have a: "0 < a" using False by (simp add: a_def)
  define e0 where "e0 = bit_length a - bit_length q - 53"
  define X where "X = (\<lambda>e. real_of_int a / real_of_int q / 2 powr real_of_int e)"
  define e where
    "e = (if 2 ^ 53 * snd (scaled a q e0) \<le> fst (scaled a q e0) then e0 + 1 else e0)"
  define m where "m = nearest_even (fst (scaled a q e)) (snd (scaled a q e))"
  have res: "round_to_double p q = (sgn p * m, e)"
    using False by (simp add: round_to_double_def Let_def a_def e0_def e_def m_def)
  have ratio: "real_of_int (fst (scaled a q k)) / real_of_int (snd (scaled a q k)) = X k" for k
    unfolding X_def by (rule scaled_ratio(2) [OF q])
  have dpos: "0 < snd (scaled a q k)" for k
    by (rule scaled_ratio(1) [OF q])
  have "2 powr (real_of_int (bit_length a) - 1) \<le> real_of_int a"
    by (rule bit_length_powr(1) [OF a])
  moreover have "real_of_int q < 2 powr real_of_int (bit_length q)" and "0 < real_of_int q"
    using bit_length_powr(2) [OF q] q by simp_all
  ultimately have "2 powr (real_of_int (bit_length a) - 1) / 2 powr real_of_int (bit_length q)
      < real_of_int a / real_of_int q"
    by (intro frac_less2) simp_all
  then have "2 powr (real_of_int (bit_length a) - 1 - real_of_int (bit_length q))
      < real_of_int a / real_of_int q"
    by (simp only: powr_diff)
  then have "2 powr (real_of_int (bit_length a) - 1 - real_of_int (bit_length q)) / 2 powr real_of_int e0
      < X e0"
    unfolding X_def by (intro divide_strict_right_mono) simp_all
  moreover have "real_of_int (bit_length a) - 1 - real_of_int (bit_length q) - real_of_int e0 = 52"
    by (simp add: e0_def)
  ultimately have "2 powr 52 < X e0"
    by (simp only: flip: powr_diff)
  then have X0: "2 ^ 52 < X e0"
    by (simp add: powr_numeral)
  have Xlow: "2 ^ 52 \<le> X e"
  proof (cases "2 ^ 53 * snd (scaled a q e0) \<le> fst (scaled a q e0)")
    case True
    then have "real_of_int (2 ^ 53 * snd (scaled a q e0)) \<le> real_of_int (fst (scaled a q e0))"
      by (simp only: of_int_le_iff)
    then have "2 ^ 53 \<le> real_of_int (fst (scaled a q e0)) / real_of_int (snd (scaled a q e0))"
      using dpos [of e0] by (simp add: field_simps)
    then have "2 ^ 53 \<le> X e0"
      by (simp only: ratio)
    moreover have "X (e0 + 1) = X e0 / 2"
      by (simp add: X_def powr_add)
    moreover have "e = e0 + 1"
      using True by (simp add: e_def)
    ultimately show ?thesis by simp
  next
    case False
    then have "e = e0" by (simp add: e_def)
    then show ?thesis using X0 by simp
  qed
  have near: "\<bar>real_of_int m - X e\<bar> \<le> 1 / 2"
    using nearest_even_nearest [OF dpos [of e], of "fst (scaled a q e)"]
    by (simp only: m_def ratio)
  define s where "s = real_of_int (sgn p)"
  have s: "\<bar>s\<bar> = 1" and sa: "real_of_int p = s * real_of_int a"
    using False by (simp_all add: s_def a_def sgn_if)
  define w where "w = 2 powr real_of_int e"
  have w: "0 < w" by (simp add: w_def)
  have dv: "double_value (round_to_double p q) = s * real_of_int m * w"
    by (simp add: res double_value_def s_def w_def)
  have pq: "real_of_int p / real_of_int q = s * X e * w"
    using w by (simp add: sa X_def w_def)
  have "double_value (round_to_double p q) - real_of_int p / real_of_int q
      = s * (real_of_int m - X e) * w"
    by (simp only: dv pq) (simp add: algebra_simps)
  then have "\<bar>double_value (round_to_double p q) - real_of_int p / real_of_int q\<bar>
      = \<bar>real_of_int m - X e\<bar> * w"
    using w s by (simp add: abs_mult)
  also have "\<dots> \<le> 1 / 2 * w"
    using near w by (intro mult_right_mono) simp_all
  also have "\<dots> = 2 ^ 52 * w / 2 ^ 53"
    by simp
  also have "\<dots> \<le> X e * w / 2 ^ 53"
    using Xlow w by (intro divide_right_mono mult_right_mono) simp_all
  also have "\<dots> = \<bar>real_of_int p / real_of_int q\<bar> / 2 ^ 53"
  proof -
    have "0 \<le> X e" using Xlow by simp
    then have "\<bar>s * X e * w\<bar> = X e * w"
      using w s by (simp add: abs_mult)
    then show ?thesis by (simp only: pq)
  qed
  finally show ?thesis .
qed

lemma true_div_error:
  assumes "b \<noteq> 0"
  shows "\<bar>double_value (true_div a b) - real_of_int a / real_of_int b\<bar>
           \<le> \<bar>real_of_int a / real_of_int b\<bar> / 2 ^ 53"
proof (cases "0 < b")
  case True
  then show ?thesis
    using round_to_double_error [OF True, of a] by (simp add: true_div_def)
next
  case False
  then have nb: "0 < - b" using assms by simp
  have "real_of_int (- a) / real_of_int (- b) = real_of_int a / real_of_int b"
    by simp
  then show ?thesis
    using round_to_double_error [OF nb, of "- a"] False by (simp only: true_div_def if_False)
qed

lemma double_mul_error:
  "\<bar>double_value (double_mul x y) - double_value x * double_value y\<bar>
     \<le> \<bar>double_value x * double_value y\<bar> / 2 ^ 53"
proof -
  define m where "m = fst x * fst y"
  define e where "e = snd x + snd y"
  have prod: "double_value x * double_value y = real_of_int m * 2 powr real_of_int e"
    by (simp add: double_value_def m_def e_def powr_add)
  show ?thesis
  proof (cases "0 \<le> e")
    case True
    have "real_of_int (m * 2 ^ nat e) / real_of_int 1 = real_of_int m * 2 powr real_of_int e"
      using True by (simp add: two_powr_int)
    moreover have "double_mul x y = round_to_double (m * 2 ^ nat e) 1"
      using True by (simp add: double_mul_def Let_def m_def e_def)
    ultimately show ?thesis
      using round_to_double_error [of 1 "m * 2 ^ nat e"] by (simp only: prod; simp?)
  next
    case False
    then have "2 powr real_of_int (- e) = 2 ^ nat (- e)"
      by (intro two_powr_int) simp
    moreover have "2 powr real_of_int e = 1 / 2 powr real_of_int (- e)"
      by (simp add: powr_minus_divide)
    ultimately have "real_of_int m / real_of_int (2 ^ nat (- e)) = real_of_int m * 2 powr real_of_int e"
      by simp
    moreover have "double_mul x y = round_to_double m (2 ^ nat (- e))"
      using False by (simp add: double_mul_def Let_def m_def e_def)
    moreover have "(0::int) < 2 ^ nat (- e)" by simp
    ultimately show ?thesis
      using round_to_double_error [of "2 ^ nat (- e)" m] by (simp only: prod)
  qed
qed

lemma double_hundred: "double_value (double_of_int 100) = 100"
proof -
  have "double_of_int 100 = (7036874417766400, - 46)"
    by code_simp
  moreover have "(2::real) powr - 46 = 1 / 2 ^ 46"
    by (simp add: powr_minus_divide powr_numeral)
  ultimately show ?thesis
    by (simp add: double_value_def)
qed


lemma percentage_nearest:
  assumes t: "t \<noteq> 0" and v: "\<bar>v\<bar> < 2 ^ 43"
  shows "\<bar>real_of_int (round_double (double_mul (true_div v t) (double_of_int 100)))
           - real_of_int v / real_of_int t * 100\<bar> \<le> 1 / 2"
proof -
  define x where "x = real_of_int v / real_of_int t"
  define f where "f = double_value (true_div v t)"
  define g where "g = double_value (double_mul (true_div v t) (double_of_int 100))"
  define k where "k = round_double (double_mul (true_div v t) (double_of_int 100))"
  define u :: real where "u = 1 / 2 ^ 53"
  have u: "0 < u" "u \<le> 1" by (simp_all add: u_def)
  have fx: "\<bar>f - x\<bar> \<le> u * \<bar>x\<bar>"
    using true_div_error [OF t, of v] by (simp add: f_def x_def u_def)
  have "\<bar>g - f * 100\<bar> \<le> u * \<bar>f * 100\<bar>"
    using double_mul_error [of "true_div v t" "double_of_int 100"]
    by (simp add: g_def f_def u_def double_hundred)
  then have gf: "\<bar>g - f * 100\<bar> \<le> u * 100 * \<bar>f\<bar>"
    by (simp add: abs_mult)
  have kg: "\<bar>real_of_int k - g\<bar> \<le> 1 / 2"
    unfolding k_def g_def by (rule round_double_nearest)
  have "\<bar>f\<bar> \<le> \<bar>x\<bar> + \<bar>f - x\<bar>" by simp
  also have "\<dots> \<le> \<bar>x\<bar> + u * \<bar>x\<bar>" using fx by simp
  also have "\<dots> \<le> 2 * \<bar>x\<bar>"
    using u mult_right_mono [of u 1 "\<bar>x\<bar>"] by simp
  finally have f2: "\<bar>f\<bar> \<le> 2 * \<bar>x\<bar>" .
  have "u * 100 * \<bar>f\<bar> \<le> u * 100 * (2 * \<bar>x\<bar>)"
    using f2 u by (intro mult_left_mono) simp_all
  then have gf': "\<bar>g - f * 100\<bar> \<le> 200 * u * \<bar>x\<bar>"
    using gf by simp
  have "\<bar>g - x * 100\<bar> \<le> \<bar>g - f * 100\<bar> + 100 * \<bar>f - x\<bar>"
    by (simp add: abs_if)
  also have "\<dots> \<le> 200 * u * \<bar>x\<bar> + 100 * (u * \<bar>x\<bar>)"
    using gf' fx by simp
  finally have gx: "\<bar>g - x * 100\<bar> \<le> 300 * u * \<bar>x\<bar>"
    by simp
  have "\<bar>real_of_int k - x * 100\<bar> \<le> \<bar>real_of_int k - g\<bar> + \<bar>g - x * 100\<bar>"
    by simp
  then have kx: "\<bar>real_of_int k - x * 100\<bar> \<le> 1 / 2 + 300 * u * \<bar>x\<bar>"
    using kg gx by simp
  define n where "n = \<bar>k * t - 100 * v\<bar>"
  have at: "0 < \<bar>real_of_int t\<bar>" using t by simp
  have "real_of_int k - x * 100 = real_of_int (k * t - 100 * v) / real_of_int t"
    using t by (simp add: x_def field_simps)
  then have nk: "\<bar>real_of_int k - x * 100\<bar> = real_of_int n / \<bar>real_of_int t\<bar>"
    by (simp add: n_def)
  have ax: "\<bar>x\<bar> = \<bar>real_of_int v\<bar> / \<bar>real_of_int t\<bar>"
    by (simp add: x_def)
  have "real_of_int n / \<bar>real_of_int t\<bar> \<le> 1 / 2 + 300 * u * (\<bar>real_of_int v\<bar> / \<bar>real_of_int t\<bar>)"
    using kx by (simp only: nk ax)
  then have "real_of_int n \<le> \<bar>real_of_int t\<bar> / 2 + 300 * u * \<bar>real_of_int v\<bar>"
    using at by (simp add: field_simps)
  moreover have "\<bar>real_of_int v\<bar> < 2 ^ 43"
  proof -
    have "real_of_int \<bar>v\<bar> < real_of_int (2 ^ 43)"
      using v by (simp only: of_int_less_iff)
    then show ?thesis by simp
  qed
  then have "300 * u * \<bar>real_of_int v\<bar> < 1 / 2"
    by (simp add: u_def)
  ultimately have "real_of_int n < \<bar>real_of_int t\<bar> / 2 + 1 / 2"
    by simp
  then have "real_of_int (2 * n) < real_of_int (\<bar>t\<bar> + 1)"
    by simp
  then have "2 * n < \<bar>t\<bar> + 1"
    by (simp only: of_int_less_iff)
  then have "2 * n \<le> \<bar>t\<bar>" by simp
  then have "real_of_int (2 * n) \<le> real_of_int \<bar>t\<bar>"
    by (simp only: of_int_le_iff)
  then have "real_of_int n / \<bar>real_of_int t\<bar> \<le> 1 / 2"
    using at by (simp add: field_simps)
  then show ?thesis
    by (simp only: nk [symmetric] k_def x_def)
qed

subsection \<open>The loop of the renderer\<close>

lemma pie_total_nonzero: "pie_total data \<noteq> 0"
  by (simp add: pie_total_def Let_def)

lemma pie_loop_length:
  "pie_loop tot cx cy ro ri colors i angle data = Inr ss \<Longrightarrow> length ss = length data"
  by (induction data arbitrary: i angle ss) (auto simp: Let_def split: sum.splits)

lemma pie_loop_frac:
  "pie_loop tot cx cy ro ri colors i angle data = Inr ss \<Longrightarrow>
   map frac ss = map (\<lambda>e. real_of_int (snd e) / real_of_int tot) data"
  by (induction data arbitrary: i angle ss) (auto simp: Let_def split: sum.splits)

lemma pie_loop_slice:
  "pie_loop tot cx cy ro ri colors i angle data = Inr ss \<Longrightarrow>
   \<forall>s \<in> set ss. delta s = frac s * 2 * pi \<and> large s = (if delta s > pi then 1 else 0)"
  by (induction data arbitrary: i angle ss) (auto simp: Let_def split: sum.splits)

lemma pie_loop_pct:
  "pie_loop tot cx cy ro ri colors i angle data = Inr ss \<Longrightarrow>
   map pct ss
     = map (\<lambda>e. round_double (double_mul (true_div (snd e) tot) (double_of_int 100))) data"
  by (induction data arbitrary: i angle ss) (auto simp: Let_def split: sum.splits)

lemma pie_paths_frac:
  assumes "pie_paths data cx cy ro ri colors = Inr ss"
  shows "map frac ss = map (\<lambda>e. real_of_int (snd e) / real_of_int (pie_total data)) data"
  using assms unfolding pie_paths_def by (rule pie_loop_frac)

lemma pie_paths_slice:
  assumes "pie_paths data cx cy ro ri colors = Inr ss"
  shows "\<forall>s \<in> set ss. delta s = frac s * 2 * pi \<and> large s = (if delta s > pi then 1 else 0)"
  using assms unfolding pie_paths_def by (rule pie_loop_slice)

lemma pie_paths_delta:
  assumes "pie_paths data cx cy ro ri colors = Inr ss"
  shows "map delta ss = map (\<lambda>e. real_of_int (snd e) / real_of_int (pie_total data) * 2 * pi) data"
proof -
  have "map delta ss = map (\<lambda>s. frac s * 2 * pi) ss"
    using pie_paths_slice [OF assms] by simp
  also have "\<dots> = map (\<lambda>f. f * 2 * pi) (map frac ss)"
    by simp
  also have "\<dots> = map (\<lambda>e. real_of_int (snd e) / real_of_int (pie_total data) * 2 * pi) data"
    by (simp only: pie_paths_frac [OF assms]) simp
  finally show ?thesis .
qed

lemma pie_paths_pct:
  assumes "pie_paths data cx cy ro ri colors = Inr ss"
  shows "map pct ss
     = map (\<lambda>e. round_double (double_mul (true_div (snd e) (pie_total data)) (double_of_int 100)))
         data"
  using assms unfolding pie_paths_def by (rule pie_loop_pct)

lemma pie_loop_pct_near:
  "tot \<noteq> 0 \<Longrightarrow> \<forall>e \<in> set data. \<bar>snd e\<bar> < 2 ^ 43 \<Longrightarrow>
   pie_loop tot cx cy ro ri colors i angle data = Inr ss \<Longrightarrow>
   \<forall>s \<in> set ss. \<bar>real_of_int (pct s) - frac s * 100\<bar> \<le> 1 / 2"
proof (induction data arbitrary: i angle ss)
  case Nil
  then show ?case by simp
next
  case (Cons e data)
  obtain lbl v where e: "e = (lbl, v)" by (cases e)
  have "\<bar>v\<bar> < 2 ^ 43"
    using Cons.prems(2) e by simp
  then have near: "\<bar>real_of_int (round_double (double_mul (true_div v tot) (double_of_int 100)))
           - real_of_int v / real_of_int tot * 100\<bar> \<le> 1 / 2"
    by (rule percentage_nearest [OF Cons.prems(1)])
  have rest: "\<forall>e \<in> set data. \<bar>snd e\<bar> < 2 ^ 43"
    using Cons.prems(2) by simp
  show ?case
    using Cons.prems(3) Cons.IH [OF Cons.prems(1) rest] near
    by (auto simp: e Let_def split: sum.splits)
qed

lemma pie_paths_pct_near:
  assumes "pie_paths data cx cy ro ri colors = Inr ss" and "\<forall>e \<in> set data. \<bar>snd e\<bar> < 2 ^ 43"
  shows "\<forall>s \<in> set ss. \<bar>real_of_int (pct s) - frac s * 100\<bar> \<le> 1 / 2"
  using pie_total_nonzero assms(2) assms(1) unfolding pie_paths_def by (rule pie_loop_pct_near)

lemma sum_shares:
  "sum_list (map (\<lambda>e. real_of_int (snd e) / t * 2 * pi) data)
     = real_of_int (sum_list (map snd data)) / t * 2 * pi"
  by (induction data) (simp_all add: add_divide_distrib distrib_right)

lemma pie_paths_span_sum:
  assumes "pie_paths data cx cy ro ri colors = Inr ss"
  shows "sum_list (map delta ss)
     = real_of_int (sum_list (map snd data)) / real_of_int (pie_total data) * 2 * pi"
  by (simp only: pie_paths_delta [OF assms] sum_shares)

subsection \<open>The example charts, evaluated\<close>

lemma palette_nonempty: "REPO_COLORS \<noteq> []"
  by (simp add: REPO_COLORS_def)

lemma zero_chart:
  "map frac (slices_of (pie_paths zero_tally 280 160 88 56 (Some REPO_COLORS))) = [0, 0]"
  "map delta (slices_of (pie_paths zero_tally 280 160 88 56 (Some REPO_COLORS))) = [0, 0]"
  by (simp_all add: pie_paths_def pie_total_def zero_tally_def slice_color_def REPO_COLORS_def
      Let_def)

lemma cancelling_chart:
  "map frac (slices_of (pie_paths cancelling_tally 280 160 88 56 (Some REPO_COLORS))) = [1, - 1]"
  "map delta (slices_of (pie_paths cancelling_tally 280 160 88 56 (Some REPO_COLORS)))
     = [2 * pi, - (2 * pi)]"
  by (simp_all add: pie_paths_def pie_total_def cancelling_tally_def slice_color_def
      REPO_COLORS_def Let_def)

lemma empty_chart: "pie_paths [] 280 160 88 56 (Some REPO_COLORS) = Inr []"
  by (simp add: pie_paths_def)

lemma example_percentages:
  "round_double (double_mul (true_div 1 3) (double_of_int 100)) = 33"
  "round_double (double_mul (true_div 23 40) (double_of_int 100)) = 57"
  "round_double (double_mul (true_div 17 40) (double_of_int 100)) = 42"
  by code_simp+

section \<open>Claims about the pie renderer\<close>

text \<open>
  C4, as the code has it. Whenever \<^verbatim>\<open>pie_paths\<close> returns its slices, their angular spans
  (the \<^verbatim>\<open>delta\<close> values) add up to exactly \<open>2\<pi>\<close> if the values of the input do not sum to
  zero, and to 0 if they do, the empty list included; the rounding of the displayed
  percentages plays no part. The arithmetic is that of the reals.
\<close>

theorem pie_spans_sum:
  assumes "pie_paths data cx cy ro ri colors = Inr ss"
  shows "sum_list (map delta ss) = (if sum_list (map snd data) = 0 then 0 else 2 * pi)"
proof (cases "sum_list (map snd data) = 0")
  case True
  then show ?thesis
    by (simp add: pie_paths_span_sum [OF assms])
next
  case False
  then have "pie_total data = sum_list (map snd data)"
    by (simp add: pie_total_def Let_def)
  then show ?thesis
    using False by (simp add: pie_paths_span_sum [OF assms])
qed

theorem pie_spans_sum_witness:
  "sum_list (map snd (top_n_with_other spec_tally)) = 26
   \<and> sum_list (map delta
        (slices_of (pie_paths (top_n_with_other spec_tally) 280 160 88 56 (Some REPO_COLORS))))
       = 2 * pi"
proof -
  obtain ss where e: "pie_paths (top_n_with_other spec_tally) 280 160 88 56 (Some REPO_COLORS) = Inr ss"
    using pie_paths_returns [OF palette_nonempty] by blast
  have n: "sum_list (map snd (top_n_with_other spec_tally)) = 26"
    by (simp add: top_n_spec_tally)
  have "sum_list (map delta ss) = 2 * pi"
    using pie_spans_sum [OF e] by (simp add: n)
  then have "sum_list (map delta
        (slices_of (pie_paths (top_n_with_other spec_tally) 280 160 88 56 (Some REPO_COLORS))))
       = 2 * pi"
    by (simp add: e)
  with n show ?thesis by (intro conjI)
qed

text \<open>
  The claim as written fails when the values sum to zero: the empty list yields no
  slice, and a list of zero counts yields slices of span 0; the spans add up to 0, not
  to \<open>2\<pi>\<close>.
\<close>

theorem pie_spans_of_empty_chart:
  "pie_paths [] 280 160 88 56 (Some REPO_COLORS) = Inr []
   \<and> sum_list (map delta (slices_of (pie_paths [] 280 160 88 56 (Some REPO_COLORS)))) = 0
   \<and> map delta (slices_of (pie_paths zero_tally 280 160 88 56 (Some REPO_COLORS))) = [0, 0]
   \<and> (0 :: real) \<noteq> 2 * pi"
  by (simp add: empty_chart zero_chart)

text \<open>
  C7. For every slice that \<^verbatim>\<open>pie_paths\<close> returns, the large-arc flag is 1 exactly when
  the angular span of the slice, its share of the total times \<open>2\<pi>\<close>, strictly exceeds \<open>\<pi>\<close>,
  and 0 otherwise, also at exactly \<open>\<pi>\<close>.
\<close>

theorem large_arc_flag:
  assumes "pie_paths data cx cy ro ri colors = Inr ss"
  shows "map delta ss
      = map (\<lambda>e. real_of_int (snd e) / real_of_int (pie_total data) * 2 * pi) data
    \<and> map large ss = map (\<lambda>d. if pi < d then 1 else 0) (map delta ss)
    \<and> (\<forall>s \<in> set ss. (large s = 1 \<longleftrightarrow> pi < delta s) \<and> (large s = 0 \<longleftrightarrow> delta s \<le> pi))"
proof -
  have "map large ss = map (\<lambda>d. if pi < d then 1 else 0) (map delta ss)"
    using pie_paths_slice [OF assms] by simp
  moreover have "\<forall>s \<in> set ss. (large s = 1 \<longleftrightarrow> pi < delta s) \<and> (large s = 0 \<longleftrightarrow> delta s \<le> pi)"
    using pie_paths_slice [OF assms] by auto
  ultimately show ?thesis
    using pie_paths_delta [OF assms] by blast
qed

theorem large_arc_flag_witness:
  "map large (slices_of (pie_paths dominant_tally 280 160 88 56 (Some REPO_COLORS))) = [1, 0]
   \<and> map delta (slices_of (pie_paths halves_tally 280 160 88 56 (Some REPO_COLORS))) = [pi, pi]
   \<and> map large (slices_of (pie_paths halves_tally 280 160 88 56 (Some REPO_COLORS))) = [0, 0]"
proof -
  obtain ss where e: "pie_paths dominant_tally 280 160 88 56 (Some REPO_COLORS) = Inr ss"
    using pie_paths_returns [OF palette_nonempty] by blast
  note t = large_arc_flag [OF e]
  have d: "map delta ss = [3 / 4 * 2 * pi, 1 / 4 * 2 * pi]"
    using t [THEN conjunct1] by (simp add: dominant_tally_def pie_total_def)
  have "map large ss = [1, 0]"
    using t [THEN conjunct2, THEN conjunct1] by (simp add: d)
  then have a: "map large (slices_of (pie_paths dominant_tally 280 160 88 56 (Some REPO_COLORS))) = [1, 0]"
    by (simp add: e)
  obtain hs where f: "pie_paths halves_tally 280 160 88 56 (Some REPO_COLORS) = Inr hs"
    using pie_paths_returns [OF palette_nonempty] by blast
  note u = large_arc_flag [OF f]
  have d': "map delta hs = [pi, pi]"
    using u [THEN conjunct1] by (simp add: halves_tally_def pie_total_def)
  have "map large hs = [0, 0]"
    using u [THEN conjunct2, THEN conjunct1] by (simp add: d')
  then have c: "map large (slices_of (pie_paths halves_tally 280 160 88 56 (Some REPO_COLORS))) = [0, 0]"
    by (simp add: f)
  have b: "map delta (slices_of (pie_paths halves_tally 280 160 88 56 (Some REPO_COLORS))) = [pi, pi]"
    using d' by (simp add: f)
  show ?thesis
    by (intro conjI a b c)
qed

text \<open>
  C8, as the code has it. The divisor of \<^verbatim>\<open>value / total\<close> is never zero: when the
  values sum to zero, the empty list included, it is 1. Every fraction is then the value
  itself; when moreover no value is negative, all values are zero, so every fraction is
  0 and every slice returned has zero angular span. With a palette that is not empty
  \<^verbatim>\<open>pie_paths\<close> raises nothing.
\<close>

theorem pie_total_never_zero:
  "pie_total data \<noteq> 0
   \<and> (sum_list (map snd data) = 0 \<longrightarrow> pie_total data = 1)
   \<and> (pie_paths data cx cy ro ri colors = Inr ss \<and> sum_list (map snd data) = 0 \<longrightarrow>
        map frac ss = map (\<lambda>e. real_of_int (snd e)) data)
   \<and> (pie_paths data cx cy ro ri colors = Inr ss \<and> sum_list (map snd data) = 0
        \<and> (\<forall>e \<in> set data. 0 \<le> snd e) \<longrightarrow>
        length ss = length data \<and> (\<forall>s \<in> set ss. frac s = 0 \<and> delta s = 0))
   \<and> (cs \<noteq> [] \<longrightarrow> (\<exists>result. pie_paths data cx cy ro ri (Some cs) = Inr result))"
proof -
  have one: "pie_total data = 1" if "sum_list (map snd data) = 0"
    using that by (simp add: pie_total_def)
  have fr: "map frac ss = map (\<lambda>e. real_of_int (snd e)) data"
    if "pie_paths data cx cy ro ri colors = Inr ss" and "sum_list (map snd data) = 0"
    using pie_paths_frac [OF that(1)] by (simp add: one [OF that(2)])
  have zero: "length ss = length data \<and> (\<forall>s \<in> set ss. frac s = 0 \<and> delta s = 0)"
    if r: "pie_paths data cx cy ro ri colors = Inr ss" and z: "sum_list (map snd data) = 0"
      and n: "\<forall>e \<in> set data. 0 \<le> snd e"
  proof -
    have "\<forall>v \<in> set (map snd data). 0 \<le> v"
      using n by simp
    then have "\<forall>v \<in> set (map snd data). v = 0"
      using z by (simp only: sum_list_nonneg_eq_0_iff)
    then have "map (\<lambda>e. real_of_int (snd e)) data = map (\<lambda>e. 0) data"
      by simp
    then have "map frac ss = map (\<lambda>e. 0) data"
      by (simp only: fr [OF r z])
    then have "\<forall>f \<in> set (map frac ss). f = 0"
      by (simp only: set_map) auto
    then have f0: "\<forall>s \<in> set ss. frac s = 0"
      by simp
    have "length ss = length data"
      using r unfolding pie_paths_def by (rule pie_loop_length)
    then show ?thesis
      using f0 pie_paths_slice [OF r] by simp
  qed
  show ?thesis
    using pie_total_nonzero [of data] one fr zero pie_paths_returns [of cs data cx cy ro ri]
    by blast
qed

theorem pie_total_never_zero_witness:
  "sum_list (map snd zero_tally) = 0
   \<and> list_all (\<lambda>e. 0 \<le> snd e) zero_tally
   \<and> pie_total zero_tally = 1
   \<and> length (slices_of (pie_paths zero_tally 280 160 88 56 (Some REPO_COLORS))) = 2
   \<and> list_all (\<lambda>s. frac s = 0 \<and> delta s = 0)
        (slices_of (pie_paths zero_tally 280 160 88 56 (Some REPO_COLORS)))"
proof -
  obtain ss where e: "pie_paths zero_tally 280 160 88 56 (Some REPO_COLORS) = Inr ss"
    using pie_paths_returns [OF palette_nonempty] by blast
  note t = pie_total_never_zero [of zero_tally 280 160 88 56 "Some REPO_COLORS" ss REPO_COLORS]
  have z: "sum_list (map snd zero_tally) = 0"
    by (simp add: zero_tally_def)
  have n: "\<forall>e \<in> set zero_tally. 0 \<le> snd e"
    by (simp add: zero_tally_def)
  have n': "list_all (\<lambda>e. 0 \<le> snd e) zero_tally"
    by (simp add: zero_tally_def)
  have one: "pie_total zero_tally = 1"
    by (rule t [THEN conjunct2, THEN conjunct1, THEN mp, OF z])
  have h: "pie_paths zero_tally 280 160 88 56 (Some REPO_COLORS) = Inr ss
      \<and> sum_list (map snd zero_tally) = 0 \<and> (\<forall>e \<in> set zero_tally. 0 \<le> snd e)"
    by (intro conjI e z n)
  note q = t [THEN conjunct2, THEN conjunct2, THEN conjunct2, THEN conjunct1, THEN mp, OF h]
  have "length ss = 2"
    using q [THEN conjunct1] by (simp add: zero_tally_def)
  then have l: "length (slices_of (pie_paths zero_tally 280 160 88 56 (Some REPO_COLORS))) = 2"
    by (simp add: e)
  have "list_all (\<lambda>s. frac s = 0 \<and> delta s = 0) ss"
    using q [THEN conjunct2] by (simp only: list_all_iff)
  then have a: "list_all (\<lambda>s. frac s = 0 \<and> delta s = 0)
        (slices_of (pie_paths zero_tally 280 160 88 56 (Some REPO_COLORS)))"
    by (simp add: e)
  show ?thesis
    by (intro conjI z n' one l a)
qed

text \<open>
  The claim as written fails on values of both signs that sum to zero: the divisor is 1,
  the fractions are the values \<open>1\<close> and \<open>- 1\<close>, and the spans are \<open>2\<pi>\<close> and \<open>- 2\<pi>\<close>, not
  zero.
\<close>

theorem pie_cancelling_values:
  "sum_list (map snd cancelling_tally) = 0
   \<and> map frac (slices_of (pie_paths cancelling_tally 280 160 88 56 (Some REPO_COLORS))) = [1, - 1]
   \<and> map delta (slices_of (pie_paths cancelling_tally 280 160 88 56 (Some REPO_COLORS)))
       = [2 * pi, - (2 * pi)]"
  by (simp add: cancelling_chart) (simp add: cancelling_tally_def)

text \<open>
  C9. For every slice that \<^verbatim>\<open>pie_paths\<close> returns, the displayed percentage is
  \<^verbatim>\<open>round(frac * 100)\<close> as the source computes it in double precision, from the value of
  that slice and the total alone: the integer nearest to the product \<^verbatim>\<open>frac * 100\<close>,
  within one half of it; for values below \<open>2\<^sup>4\<^sup>3\<close> in magnitude it is also within one half
  of the exact percentage, so it is an integer nearest to it. The percentages of a chart
  need not add up to 100, as the chart of three equal shares shows (33 each, 99 in
  all).
\<close>

theorem slice_percentage:
  assumes "pie_paths data cx cy ro ri colors = Inr ss"
  shows "map pct ss
      = map (\<lambda>e. round_double (double_mul (true_div (snd e) (pie_total data)) (double_of_int 100)))
          data
    \<and> (\<forall>e \<in> set data.
          \<bar>real_of_int
             (round_double (double_mul (true_div (snd e) (pie_total data)) (double_of_int 100)))
           - double_value (double_mul (true_div (snd e) (pie_total data)) (double_of_int 100))\<bar>
          \<le> 1 / 2)
    \<and> ((\<forall>e \<in> set data. \<bar>snd e\<bar> < 2 ^ 43) \<longrightarrow>
          (\<forall>s \<in> set ss. \<bar>real_of_int (pct s) - frac s * 100\<bar> \<le> 1 / 2))"
  using pie_paths_pct [OF assms] round_double_nearest pie_paths_pct_near [OF assms] by blast

theorem slice_percentage_witness:
  "map pct (slices_of (pie_paths thirds_tally 280 160 88 56 (Some REPO_COLORS))) = [33, 33, 33]
   \<and> sum_list (map pct (slices_of (pie_paths thirds_tally 280 160 88 56 (Some REPO_COLORS)))) = 99
   \<and> map pct (slices_of (pie_paths forty_tally 280 160 88 56 (Some REPO_COLORS))) = [57, 42]
   \<and> list_all (\<lambda>e. \<bar>snd e\<bar> < 2 ^ 43) forty_tally
   \<and> list_all (\<lambda>s. \<bar>real_of_int (pct s) - frac s * 100\<bar> \<le> 1 / 2)
        (slices_of (pie_paths forty_tally 280 160 88 56 (Some REPO_COLORS)))"
proof -
  obtain ss where e: "pie_paths thirds_tally 280 160 88 56 (Some REPO_COLORS) = Inr ss"
    using pie_paths_returns [OF palette_nonempty] by blast
  have t: "pie_total thirds_tally = 3"
    by (simp add: pie_total_def thirds_tally_def)
  have "map pct ss = [33, 33, 33]"
    using slice_percentage [OF e, THEN conjunct1]
    by (simp only: t) (simp add: thirds_tally_def example_percentages)
  then have a: "map pct (slices_of (pie_paths thirds_tally 280 160 88 56 (Some REPO_COLORS)))
      = [33, 33, 33]"
    by (simp add: e)
  then have b: "sum_list (map pct (slices_of (pie_paths thirds_tally 280 160 88 56 (Some REPO_COLORS))))
      = 99"
    by simp
  obtain fs where f: "pie_paths forty_tally 280 160 88 56 (Some REPO_COLORS) = Inr fs"
    using pie_paths_returns [OF palette_nonempty] by blast
  have u: "pie_total forty_tally = 40"
    by (simp add: pie_total_def forty_tally_def)
  have "map pct fs = [57, 42]"
    using slice_percentage [OF f, THEN conjunct1]
    by (simp only: u) (simp add: forty_tally_def example_percentages)
  then have c: "map pct (slices_of (pie_paths forty_tally 280 160 88 56 (Some REPO_COLORS))) = [57, 42]"
    by (simp add: f)
  have h: "\<forall>e \<in> set forty_tally. \<bar>snd e\<bar> < 2 ^ 43"
    by (simp add: forty_tally_def)
  have h': "list_all (\<lambda>e. \<bar>snd e\<bar> < 2 ^ 43) forty_tally"
    by (simp add: forty_tally_def)
  have "\<forall>s \<in> set fs. \<bar>real_of_int (pct s) - frac s * 100\<bar> \<le> 1 / 2"
    by (rule slice_percentage [OF f, THEN conjunct2, THEN conjunct2, THEN mp, OF h])
  then have "list_all (\<lambda>s. \<bar>real_of_int (pct s) - frac s * 100\<bar> \<le> 1 / 2) fs"
    by (simp only: list_all_iff)
  then have d: "list_all (\<lambda>s. \<bar>real_of_int (pct s) - frac s * 100\<bar> \<le> 1 / 2)
        (slices_of (pie_paths forty_tally 280 160 88 56 (Some REPO_COLORS)))"
    by (simp add: f)
  show ?thesis
    by (intro conjI a b c h' d)
qed

end
